theory Spec2Isabelle
  imports Main "HOL-Library.Word"
begin

unbundle bit_operations_syntax

section \<open>SNMPv3 User Security Model (v3\_usm.go)\<close>

subsection \<open>Bytes, protocols and the hash interface\<close>

text \<open>
  A Go \<open>[]byte\<close> and a Go \<open>string\<close> are both sequences of octets; the conversions
  \<open>string(b)\<close> and \<open>[]byte(s)\<close> keep the octets, so both are lists of 8-bit words here.
  A nil slice and an empty slice are both the empty list.
\<close>

type_synonym byte = "8 word"
type_synonym bytes = "byte list"

text \<open>\<open>SnmpV3AuthProtocol\<close> and \<open>SnmpV3PrivProtocol\<close> are \<open>uint8\<close> with named constants.\<close>

type_synonym SnmpV3AuthProtocol = "8 word"

abbreviation (input) NoAuth :: SnmpV3AuthProtocol where "NoAuth \<equiv> 1"
abbreviation (input) MD5 :: SnmpV3AuthProtocol where "MD5 \<equiv> 2"
abbreviation (input) SHA :: SnmpV3AuthProtocol where "SHA \<equiv> 3"
abbreviation (input) SHA224 :: SnmpV3AuthProtocol where "SHA224 \<equiv> 4"
abbreviation (input) SHA256 :: SnmpV3AuthProtocol where "SHA256 \<equiv> 5"
abbreviation (input) SHA384 :: SnmpV3AuthProtocol where "SHA384 \<equiv> 6"
abbreviation (input) SHA512 :: SnmpV3AuthProtocol where "SHA512 \<equiv> 7"

type_synonym SnmpV3PrivProtocol = "8 word"

abbreviation (input) NoPriv :: SnmpV3PrivProtocol where "NoPriv \<equiv> 1"
abbreviation (input) DES :: SnmpV3PrivProtocol where "DES \<equiv> 2"
abbreviation (input) AES :: SnmpV3PrivProtocol where "AES \<equiv> 3"
abbreviation (input) AES192 :: SnmpV3PrivProtocol where "AES192 \<equiv> 4"
abbreviation (input) AES256 :: SnmpV3PrivProtocol where "AES256 \<equiv> 5"
abbreviation (input) AES192C :: SnmpV3PrivProtocol where "AES192C \<equiv> 6"
abbreviation (input) AES256C :: SnmpV3PrivProtocol where "AES256C \<equiv> 7"

text \<open>The values of Go's \<open>crypto.Hash\<close> that \<open>HashType\<close> returns.\<close>

datatype crypto_Hash =
  CryptoMD5 | CryptoSHA1 | CryptoSHA224 | CryptoSHA256 | CryptoSHA384 | CryptoSHA512

definition HashType :: "SnmpV3AuthProtocol \<Rightarrow> crypto_Hash" where
  "HashType authProtocol =
     (if authProtocol = SHA then CryptoSHA1
      else if authProtocol = SHA224 then CryptoSHA224
      else if authProtocol = SHA256 then CryptoSHA256
      else if authProtocol = SHA384 then CryptoSHA384
      else if authProtocol = SHA512 then CryptoSHA512
      else CryptoMD5)"

text \<open>
  The digest algorithms themselves are Go's standard library. They enter as a parameter
  \<open>H\<close>: \<open>H c bs\<close> is the digest of the octets \<open>bs\<close> under the algorithm \<open>c\<close>.
  A \<open>hash.Hash\<close> object is its algorithm and the octets written so far; \<open>Write\<close> appends
  (it never fails, as the interface documents) and \<open>Sum(nil)\<close> is the digest of everything
  written.
\<close>

type_synonym digest_fn = "crypto_Hash \<Rightarrow> bytes \<Rightarrow> bytes"

record hash_Hash =
  alg :: crypto_Hash
  written :: bytes

definition hash_New :: "crypto_Hash \<Rightarrow> hash_Hash" where
  "hash_New c = \<lparr>alg = c, written = []\<rparr>"

definition hash_Write :: "hash_Hash \<Rightarrow> bytes \<Rightarrow> hash_Hash" where
  "hash_Write h p = h\<lparr>written := written h @ p\<rparr>"

definition hash_Sum :: "digest_fn \<Rightarrow> hash_Hash \<Rightarrow> bytes" where
  "hash_Sum H h = H (alg h) (written h)"

text \<open>
  Errors of the package, one constructor for each message. \<open>ErrExternal\<close> is an error that
  a collaborator hands in (the transport, the visitor of a walk); \<open>Panic\<close> is a Go run-time
  panic.
\<close>

datatype error =
  ErrPasswordEmpty
  | ErrPrivKeyTooShort SnmpV3PrivProtocol nat nat
  | ErrSaltTypeAES
  | ErrSaltTypeDES
  | ErrNotUsmSecurityParameters
  | ErrParseLength
  | ErrTruncatedPacket
  | ErrNotMultipleOfDesBlockSize
  | ErrCipherKeySize
  | ErrUnsupportedRequestType "8 word"
  | ErrOidNotIncreasing string
  | ErrExternal string
  | Panic

subsection \<open>Password to key\<close>

text \<open>
  The inner loop of \<open>hashPassword\<close>: \<open>for e := 0; e < 64; e++\<close>, appending
  \<open>password[pi%len(password)]\<close> to the chunk and advancing \<open>pi\<close>.
\<close>

function chunkLoop :: "bytes \<Rightarrow> nat \<Rightarrow> nat \<Rightarrow> bytes \<Rightarrow> bytes \<times> nat" where
  "chunkLoop password e pi chunk =
     (if e < 64
      then chunkLoop password (e + 1) (pi + 1) (chunk @ [password ! (pi mod length password)])
      else (chunk, pi))"
  by pat_completeness auto
termination
  by (relation "measure (\<lambda>(password, e, pi, chunk). 64 - e)") auto

text \<open>The outer loop: \<open>for i := 0; i < 1048576; i += 64\<close>, writing one chunk per turn.\<close>

function writeLoop :: "bytes \<Rightarrow> nat \<Rightarrow> nat \<Rightarrow> hash_Hash \<Rightarrow> hash_Hash" where
  "writeLoop password i pi h =
     (if i < 1048576
      then (case chunkLoop password 0 pi [] of
              (chunk, pi') \<Rightarrow> writeLoop password (i + 64) pi' (hash_Write h chunk))
      else h)"
  by pat_completeness auto
termination
  by (relation "measure (\<lambda>(password, i, pi, h). 1048576 - i)") auto

definition hashPassword :: "digest_fn \<Rightarrow> hash_Hash \<Rightarrow> bytes \<Rightarrow> error + bytes" where
  "hashPassword H h password =
     (if length password = 0 then Inl ErrPasswordEmpty
      else Inr (hash_Sum H (writeLoop password 0 0 h)))"

subsection \<open>The password cache\<close>

text \<open>
  The package-level variables: the map \<open>passwordKeyHashCache\<close> (\<open>None\<close> is the nil map)
  and the flag \<open>passwordCacheDisable\<close>. The mutex does not show in a sequential model.
\<close>

record cache_state =
  passwordKeyHashCache :: "(bytes \<rightharpoonup> bytes) option"
  passwordCacheDisable :: bool

definition initial_cache :: cache_state where
  "initial_cache = \<lparr>passwordKeyHashCache = Some Map.empty, passwordCacheDisable = False\<rparr>"

definition PasswordCaching :: "bool \<Rightarrow> cache_state \<Rightarrow> cache_state" where
  "PasswordCaching enable s =
     (let oldCacheEnable = \<not> passwordCacheDisable s;
          s1 = (if \<not> enable then s\<lparr>passwordKeyHashCache := None\<rparr>
                else if \<not> oldCacheEnable \<and> enable
                     then s\<lparr>passwordKeyHashCache := Some Map.empty\<rparr>
                else s)
      in s1\<lparr>passwordCacheDisable := \<not> enable\<rparr>)"

text \<open>
  Reading a Go map at a missing key, or reading the nil map, gives the zero value, the nil
  slice. Writing to the nil map panics.
\<close>

definition map_read :: "(bytes \<rightharpoonup> bytes) option \<Rightarrow> bytes \<Rightarrow> bytes" where
  "map_read m k = (case m of None \<Rightarrow> [] | Some f \<Rightarrow> (case f k of None \<Rightarrow> [] | Some v \<Rightarrow> v))"

definition cachedPasswordToKey ::
  "digest_fn \<Rightarrow> hash_Hash \<Rightarrow> bytes \<Rightarrow> bytes \<Rightarrow> cache_state \<Rightarrow> (error + bytes) \<times> cache_state" where
  "cachedPasswordToKey H h cacheKey password s =
     (let cacheDisable = passwordCacheDisable s;
          val = (if \<not> cacheDisable then map_read (passwordKeyHashCache s) cacheKey else [])
      in if \<not> cacheDisable \<and> val \<noteq> [] then (Inr val, s)
         else (case hashPassword H h password of
                 Inl err \<Rightarrow> (Inl err, s)
               | Inr hashed \<Rightarrow>
                   if \<not> cacheDisable
                   then (case passwordKeyHashCache s of
                           None \<Rightarrow> (Inl Panic, s)
                         | Some f \<Rightarrow>
                             (Inr hashed, s\<lparr>passwordKeyHashCache := Some (f(cacheKey \<mapsto> hashed))\<rparr>))
                   else (Inr hashed, s)))"

text \<open>
  \<open>hMAC\<close>: an error of the cached password step is answered with the empty key and a nil
  error (line 477 of the source). A panic is no error value: it unwinds through \<open>hMAC\<close>.
\<close>

definition hMAC ::
  "digest_fn \<Rightarrow> crypto_Hash \<Rightarrow> bytes \<Rightarrow> bytes \<Rightarrow> bytes \<Rightarrow> cache_state \<Rightarrow> (error + bytes) \<times> cache_state" where
  "hMAC H hash cacheKey password engineID s =
     (case cachedPasswordToKey H (hash_New hash) cacheKey password s of
        (Inl err, s') \<Rightarrow> if err = Panic then (Inl Panic, s') else (Inr [], s')
      | (Inr hashed, s') \<Rightarrow>
          (let local = hash_New hash;
               local = hash_Write local hashed;
               local = hash_Write local engineID;
               local = hash_Write local hashed
           in (Inr (hash_Sum H local), s')))"

text \<open>
  \<open>cacheKey\<close>: \<open>make([]byte, 1+len(passphrase))\<close> is that many zero octets, to which the
  algorithm octet \<open>'h'+byte(authProtocol)\<close> and the passphrase are appended.
\<close>

definition cacheKey :: "SnmpV3AuthProtocol \<Rightarrow> bytes \<Rightarrow> cache_state \<Rightarrow> bytes" where
  "cacheKey authProtocol passphrase s =
     (if passwordCacheDisable s then []
      else replicate (1 + length passphrase) 0 @ [0x68 + authProtocol] @ passphrase)"

definition genlocalkey ::
  "digest_fn \<Rightarrow> SnmpV3AuthProtocol \<Rightarrow> bytes \<Rightarrow> bytes \<Rightarrow> cache_state \<Rightarrow> (error + bytes) \<times> cache_state" where
  "genlocalkey H authProtocol passphrase engineID s =
     (case hMAC H (HashType authProtocol) (cacheKey authProtocol passphrase s) passphrase engineID s of
        (Inl err, s') \<Rightarrow> (Inl err, s')
      | (Inr secretKey, s') \<Rightarrow> (Inr secretKey, s'))"

definition extendKeyReeder ::
  "digest_fn \<Rightarrow> SnmpV3AuthProtocol \<Rightarrow> bytes \<Rightarrow> bytes \<Rightarrow> cache_state \<Rightarrow> (error + bytes) \<times> cache_state" where
  "extendKeyReeder H authProtocol password engineID s =
     (case hMAC H (HashType authProtocol) (cacheKey authProtocol password s) password engineID s of
        (Inl err, s') \<Rightarrow> (Inl err, s')
      | (Inr key, s') \<Rightarrow>
          (case hMAC H (HashType authProtocol) (cacheKey authProtocol key s') key engineID s' of
             (Inl err, s'') \<Rightarrow> (Inl err, s'')
           | (Inr newkey, s'') \<Rightarrow> (Inr (key @ newkey), s'')))"

definition extendKeyBlumenthal ::
  "digest_fn \<Rightarrow> SnmpV3AuthProtocol \<Rightarrow> bytes \<Rightarrow> bytes \<Rightarrow> cache_state \<Rightarrow> (error + bytes) \<times> cache_state" where
  "extendKeyBlumenthal H authProtocol password engineID s =
     (case hMAC H (HashType authProtocol) (cacheKey authProtocol password s) password engineID s of
        (Inl err, s') \<Rightarrow> (Inl err, s')
      | (Inr key, s') \<Rightarrow>
          (let newkey = hash_Write (hash_New (HashType authProtocol)) key
           in (Inr (key @ hash_Sum H newkey), s')))"

definition genlocalPrivKey ::
  "digest_fn \<Rightarrow> SnmpV3PrivProtocol \<Rightarrow> SnmpV3AuthProtocol \<Rightarrow> bytes \<Rightarrow> bytes \<Rightarrow> cache_state
     \<Rightarrow> (error + bytes) \<times> cache_state" where
  "genlocalPrivKey H privProtocol authProtocol password engineID s =
     (let keylen = (if privProtocol = AES \<or> privProtocol = DES then 16
                    else if privProtocol = AES192 \<or> privProtocol = AES192C then 24
                    else if privProtocol = AES256 \<or> privProtocol = AES256C then 32
                    else (0::nat));
          r = (if privProtocol = AES \<or> privProtocol = AES192C \<or> privProtocol = AES256C
               then extendKeyReeder H authProtocol password engineID s
               else if privProtocol = AES192 \<or> privProtocol = AES256
               then extendKeyBlumenthal H authProtocol password engineID s
               else genlocalkey H authProtocol password engineID s)
      in case r of
           (Inl err, s') \<Rightarrow> (Inl err, s')
         | (Inr localPrivKey, s') \<Rightarrow>
             if length localPrivKey < keylen
             then (Inl (ErrPrivKeyTooShort privProtocol (length localPrivKey) keylen), s')
             else (Inr (take keylen localPrivKey), s'))"

declare chunkLoop.simps [simp del] writeLoop.simps [simp del]

subsection \<open>What the password-to-key loops compute\<close>

text \<open>\<open>cyc p s n\<close>: the \<open>n\<close> octets read cyclically from \<open>p\<close>, starting at index \<open>s\<close>.\<close>

definition cyc :: "bytes \<Rightarrow> nat \<Rightarrow> nat \<Rightarrow> bytes" where
  "cyc p s n = map (\<lambda>j. p ! ((s + j) mod length p)) [0..<n]"

lemma cyc_0: "cyc p s 0 = []" by (simp add: cyc_def)

lemma cyc_add: "cyc p s (m + n) = cyc p s m @ cyc p (s + m) n"
  by (induction n) (simp_all add: cyc_def add.assoc)

lemma cyc_1: "cyc p s (Suc 0) = [p ! (s mod length p)]" by (simp add: cyc_def)

lemma chunkLoop_eq:
  "chunkLoop p e pi chunk = (chunk @ cyc p pi (64 - e), pi + (64 - e))"
proof (induction p e pi chunk rule: chunkLoop.induct)
  case (1 p e pi chunk)
  show ?case
  proof (cases "e < 64")
    case True
    then have n: "64 - e = Suc 0 + (64 - (e + 1))" by simp
    have "cyc p pi (64 - e) = [p ! (pi mod length p)] @ cyc p (pi + 1) (64 - (e + 1))"
      by (subst n, subst cyc_add) (simp add: cyc_1)
    with True 1 show ?thesis by (subst chunkLoop.simps) simp
  next
    case False
    then show ?thesis by (subst chunkLoop.simps) (simp add: cyc_0)
  qed
qed

lemma writeLoop_eq:
  "writeLoop p i pi h =
     h\<lparr>written := written h @ cyc p pi (64 * ((1048576 + 63 - i) div 64))\<rparr>"
proof (induction p i pi h rule: writeLoop.induct)
  case (1 p i pi h)
  show ?case
  proof (cases "i < 1048576")
    case True
    have "1048576 + 63 - i = 64 + (1048576 + 63 - (i + 64))"
      using True by linarith
    then have "(1048576 + 63 - i) div 64 = Suc ((1048576 + 63 - (i + 64)) div 64)"
      by (simp only: div_add_self1)
    then have a: "64 * ((1048576 + 63 - i) div 64) = 64 + 64 * ((1048576 + 63 - (i + 64)) div 64)"
      by (simp only: mult_Suc_right)
    have c: "chunkLoop p 0 pi [] = (cyc p pi 64, pi + 64)"
      by (simp add: chunkLoop_eq)
    have "writeLoop p i pi h = writeLoop p (i + 64) (pi + 64) (hash_Write h (cyc p pi 64))"
      using True by (subst writeLoop.simps) (simp add: c)
    also have "\<dots> = (hash_Write h (cyc p pi 64))\<lparr>written := written (hash_Write h (cyc p pi 64))
                  @ cyc p (pi + 64) (64 * ((1048576 + 63 - (i + 64)) div 64))\<rparr>"
      using 1 [OF True c [symmetric]] by simp
    also have "\<dots> = h\<lparr>written := written h @ cyc p pi (64 * ((1048576 + 63 - i) div 64))\<rparr>"
      by (subst a, subst cyc_add) (simp add: hash_Write_def)
    finally show ?thesis .
  next
    case False
    then have "1048576 + 63 - i < 64" by linarith
    then have "64 * ((1048576 + 63 - i) div 64) = 0" by (simp only: div_less mult_0_right)
    with False show ?thesis by (subst writeLoop.simps) (simp add: cyc_0)
  qed
qed

text \<open>
  The passphrase concatenated with itself and cut to exactly \<open>n\<close> octets (the
  password-to-key expansion of RFC 3414, A.2).
\<close>

definition repeat_cyclic :: "nat \<Rightarrow> bytes \<Rightarrow> bytes" where
  "repeat_cyclic n p = take n (concat (replicate n p))"

lemma length_concat_replicate: "length (concat (replicate k p)) = k * length p"
  by (induction k) simp_all

lemma nth_concat_replicate:
  "i < k * length p \<Longrightarrow> concat (replicate k p) ! i = p ! (i mod length p)"
proof (induction k arbitrary: i)
  case 0
  then show ?case by simp
next
  case (Suc k)
  show ?case
  proof (cases "i < length p")
    case True
    then show ?thesis by (simp add: nth_append)
  next
    case False
    then have "i - length p < k * length p" using Suc.prems by simp
    from Suc.IH [OF this] False show ?thesis
      by (simp add: nth_append le_mod_geq)
  qed
qed

lemma cyc_repeat: "p \<noteq> [] \<Longrightarrow> cyc p 0 n = repeat_cyclic n p"
proof (rule nth_equalityI)
  assume p: "p \<noteq> []"
  then have "n \<le> n * length p" by (cases p) simp_all
  then show l: "length (cyc p 0 n) = length (repeat_cyclic n p)"
    by (simp add: cyc_def repeat_cyclic_def length_concat_replicate)
  fix i assume "i < length (cyc p 0 n)"
  then have i: "i < n" by (simp add: cyc_def)
  with \<open>n \<le> n * length p\<close> have "i < n * length p" by linarith
  then show "cyc p 0 n ! i = repeat_cyclic n p ! i"
    using i by (simp add: cyc_def repeat_cyclic_def nth_concat_replicate)
qed

lemma hashPassword_eq:
  "p \<noteq> [] \<Longrightarrow> hashPassword H (hash_New c) p = Inr (H c (repeat_cyclic 1048576 p))"
proof -
  assume p: "p \<noteq> []"
  have "(64::nat) * ((1048576 + 63 - 0) div 64) = 1048576" by simp
  then have "writeLoop p 0 0 (hash_New c) = \<lparr>alg = c, written = cyc p 0 1048576\<rparr>"
    by (simp add: writeLoop_eq hash_New_def)
  then show ?thesis using p
    by (simp add: hashPassword_def hash_Sum_def cyc_repeat)
qed

subsection \<open>The cache invariant\<close>

text \<open>
  \<open>Ku\<close>, the digest of the expanded passphrase, and \<open>KuL = H(Ku || engineID || Ku)\<close>, the
  localized key, as RFC 3414 defines them.
\<close>

definition passwordToKey :: "digest_fn \<Rightarrow> crypto_Hash \<Rightarrow> bytes \<Rightarrow> bytes" where
  "passwordToKey H c p = H c (repeat_cyclic 1048576 p)"

definition localize :: "digest_fn \<Rightarrow> crypto_Hash \<Rightarrow> bytes \<Rightarrow> bytes \<Rightarrow> bytes" where
  "localize H c p engineID = (let Ku = passwordToKey H c p in H c (Ku @ engineID @ Ku))"

text \<open>The cache key that \<open>cacheKey\<close> builds while caching is enabled.\<close>

definition enabled_key :: "SnmpV3AuthProtocol \<Rightarrow> bytes \<Rightarrow> bytes" where
  "enabled_key a p = replicate (1 + length p) 0 @ [0x68 + a] @ p"

text \<open>
  The invariant of the package-level state: the map is nil exactly while caching is
  disabled, and every entry maps the cache key of a non-empty passphrase to its \<open>Ku\<close>.
\<close>

definition cache_inv :: "digest_fn \<Rightarrow> cache_state \<Rightarrow> bool" where
  "cache_inv H s \<longleftrightarrow>
     (passwordCacheDisable s \<longleftrightarrow> passwordKeyHashCache s = None) \<and>
     (\<forall>f k v. passwordKeyHashCache s = Some f \<longrightarrow> f k = Some v \<longrightarrow>
        (\<exists>a p. p \<noteq> [] \<and> k = enabled_key a p \<and> v = passwordToKey H (HashType a) p))"

text \<open>
  The states the package can be in: the initial one, and those that \<open>PasswordCaching\<close>,
  \<open>genlocalkey\<close> and \<open>genlocalPrivKey\<close> lead to. Nothing else in the source writes the two
  variables.
\<close>

inductive reachable :: "digest_fn \<Rightarrow> cache_state \<Rightarrow> bool" for H :: digest_fn where
  start: "reachable H initial_cache"
| caching: "reachable H s \<Longrightarrow> reachable H (PasswordCaching enable s)"
| localkey: "reachable H s \<Longrightarrow> reachable H (snd (genlocalkey H a p e s))"
| privkey: "reachable H s \<Longrightarrow> reachable H (snd (genlocalPrivKey H pp a p e s))"

lemma enabled_key_inj:
  assumes "enabled_key a p = enabled_key a' p'"
  shows "a = a' \<and> p = p'"
proof -
  from assms have "length (enabled_key a p) = length (enabled_key a' p')" by simp
  then have "length p = length p'" by (simp add: enabled_key_def)
  with assms show ?thesis by (simp add: enabled_key_def)
qed

lemma cacheKey_enabled: "\<not> passwordCacheDisable s \<Longrightarrow> cacheKey a p s = enabled_key a p"
  by (simp add: cacheKey_def enabled_key_def)

lemma hashPassword_fresh:
  "hashPassword H (hash_New c) p = (if p = [] then Inl ErrPasswordEmpty else Inr (passwordToKey H c p))"
  by (simp add: hashPassword_eq passwordToKey_def) (simp add: hashPassword_def)

lemma cache_inv_initial: "cache_inv H initial_cache"
  by (simp add: cache_inv_def initial_cache_def)

lemma cache_inv_PasswordCaching: "cache_inv H s \<Longrightarrow> cache_inv H (PasswordCaching enable s)"
  by (auto simp: cache_inv_def PasswordCaching_def Let_def)

lemma cache_inv_update:
  assumes "cache_inv H s" "passwordKeyHashCache s = Some f" "p \<noteq> []"
  shows "cache_inv H (s\<lparr>passwordKeyHashCache :=
            Some (f(enabled_key a p \<mapsto> passwordToKey H (HashType a) p))\<rparr>)"
  using assms unfolding cache_inv_def by (auto split: if_splits)

lemma cache_inv_lookup:
  assumes "cache_inv H s" "passwordKeyHashCache s = Some f" "f (enabled_key a p) = Some v"
  shows "p \<noteq> [] \<and> v = passwordToKey H (HashType a) p"
proof -
  from assms obtain a' p' where "p' \<noteq> []" "enabled_key a p = enabled_key a' p'"
      "v = passwordToKey H (HashType a') p'"
    unfolding cache_inv_def by blast
  then show ?thesis using enabled_key_inj [of a p a' p'] by simp
qed

text \<open>The cached step under the invariant: the key, or the error for the empty passphrase.\<close>

lemma cachedPasswordToKey_inv:
  assumes inv: "cache_inv H s"
  shows "fst (cachedPasswordToKey H (hash_New (HashType a)) (cacheKey a p s) p s) =
           (if p = [] then Inl ErrPasswordEmpty else Inr (passwordToKey H (HashType a) p))"
    and "cache_inv H (snd (cachedPasswordToKey H (hash_New (HashType a)) (cacheKey a p s) p s))"
    and "passwordCacheDisable (snd (cachedPasswordToKey H (hash_New (HashType a)) (cacheKey a p s) p s))
           = passwordCacheDisable s"
proof -
  let ?r = "cachedPasswordToKey H (hash_New (HashType a)) (cacheKey a p s) p s"
  let ?Ku = "passwordToKey H (HashType a) p"
  have "fst ?r = (if p = [] then Inl ErrPasswordEmpty else Inr ?Ku) \<and> cache_inv H (snd ?r)
        \<and> passwordCacheDisable (snd ?r) = passwordCacheDisable s"
  proof (cases "passwordCacheDisable s")
    case True
    then show ?thesis using inv
      by (simp add: cachedPasswordToKey_def hashPassword_fresh Let_def)
  next
    case False
    with inv obtain f where f: "passwordKeyHashCache s = Some f"
      by (auto simp: cache_inv_def)
    note k = cacheKey_enabled [OF False]
    show ?thesis
    proof (cases "f (enabled_key a p)")
      case None
      then show ?thesis using False f inv cache_inv_update [OF inv f, of p a]
        by (simp add: cachedPasswordToKey_def k map_read_def hashPassword_fresh Let_def)
    next
      case (Some v)
      from cache_inv_lookup [OF inv f Some] have p: "p \<noteq> []" and v: "v = ?Ku" by simp_all
      show ?thesis using False f inv Some p v cache_inv_update [OF inv f p, of a]
        by (auto simp: cachedPasswordToKey_def k map_read_def hashPassword_fresh Let_def)
    qed
  qed
  then show "fst ?r = (if p = [] then Inl ErrPasswordEmpty else Inr ?Ku)"
    and "cache_inv H (snd ?r)"
    and "passwordCacheDisable (snd ?r) = passwordCacheDisable s" by simp_all
qed

text \<open>What \<open>hMAC\<close> returns in a state that satisfies the invariant.\<close>

definition hMAC_value :: "digest_fn \<Rightarrow> crypto_Hash \<Rightarrow> bytes \<Rightarrow> bytes \<Rightarrow> bytes" where
  "hMAC_value H c p engineID = (if p = [] then [] else localize H c p engineID)"

lemma hMAC_inv:
  assumes inv: "cache_inv H s"
  shows "fst (hMAC H (HashType a) (cacheKey a p s) p e s) = Inr (hMAC_value H (HashType a) p e)"
    and "cache_inv H (snd (hMAC H (HashType a) (cacheKey a p s) p e s))"
    and "passwordCacheDisable (snd (hMAC H (HashType a) (cacheKey a p s) p e s))
           = passwordCacheDisable s"
proof -
  let ?r = "cachedPasswordToKey H (hash_New (HashType a)) (cacheKey a p s) p s"
  note c = cachedPasswordToKey_inv [OF inv, of a p]
  obtain x s' where r: "?r = (x, s')" by (cases ?r)
  with c have x: "x = (if p = [] then Inl ErrPasswordEmpty else Inr (passwordToKey H (HashType a) p))"
    and s': "cache_inv H s'" "passwordCacheDisable s' = passwordCacheDisable s" by simp_all
  show "fst (hMAC H (HashType a) (cacheKey a p s) p e s) = Inr (hMAC_value H (HashType a) p e)"
    using r x by (simp add: hMAC_def hMAC_value_def localize_def hash_New_def hash_Write_def hash_Sum_def Let_def)
  show "cache_inv H (snd (hMAC H (HashType a) (cacheKey a p s) p e s))"
    using r x s' by (simp add: hMAC_def Let_def)
  show "passwordCacheDisable (snd (hMAC H (HashType a) (cacheKey a p s) p e s)) = passwordCacheDisable s"
    using r x s' by (simp add: hMAC_def Let_def)
qed

lemma genlocalkey_inv:
  assumes inv: "cache_inv H s"
  shows "fst (genlocalkey H a p e s) = Inr (hMAC_value H (HashType a) p e)"
    and "cache_inv H (snd (genlocalkey H a p e s))"
proof -
  let ?r = "hMAC H (HashType a) (cacheKey a p s) p e s"
  obtain x s' where r: "?r = (x, s')" by (cases ?r)
  with hMAC_inv [OF inv, of a p e] have "x = Inr (hMAC_value H (HashType a) p e)" "cache_inv H s'"
    by simp_all
  with r show "fst (genlocalkey H a p e s) = Inr (hMAC_value H (HashType a) p e)"
    and "cache_inv H (snd (genlocalkey H a p e s))"
    by (simp_all add: genlocalkey_def)
qed

lemma extendKeyReeder_inv:
  assumes inv: "cache_inv H s"
  shows "fst (extendKeyReeder H a p e s) =
           Inr (hMAC_value H (HashType a) p e
                @ hMAC_value H (HashType a) (hMAC_value H (HashType a) p e) e)"
    and "cache_inv H (snd (extendKeyReeder H a p e s))"
proof -
  let ?k = "hMAC_value H (HashType a) p e"
  obtain x s' where r: "hMAC H (HashType a) (cacheKey a p s) p e s = (x, s')"
    by (cases "hMAC H (HashType a) (cacheKey a p s) p e s")
  with hMAC_inv [OF inv, of a p e] have x: "x = Inr ?k" and s': "cache_inv H s'"
    by simp_all
  obtain y s'' where r2: "hMAC H (HashType a) (cacheKey a ?k s') ?k e s' = (y, s'')"
    by (cases "hMAC H (HashType a) (cacheKey a ?k s') ?k e s'")
  with hMAC_inv [OF s', of a ?k e] have y: "y = Inr (hMAC_value H (HashType a) ?k e)"
    and s'': "cache_inv H s''" by simp_all
  from r x r2 y s'' show "fst (extendKeyReeder H a p e s) =
           Inr (?k @ hMAC_value H (HashType a) ?k e)"
    and "cache_inv H (snd (extendKeyReeder H a p e s))"
    by (simp_all add: extendKeyReeder_def)
qed

lemma extendKeyBlumenthal_inv:
  assumes inv: "cache_inv H s"
  shows "fst (extendKeyBlumenthal H a p e s) =
           Inr (hMAC_value H (HashType a) p e @ H (HashType a) (hMAC_value H (HashType a) p e))"
    and "cache_inv H (snd (extendKeyBlumenthal H a p e s))"
proof -
  let ?k = "hMAC_value H (HashType a) p e"
  obtain x s' where r: "hMAC H (HashType a) (cacheKey a p s) p e s = (x, s')"
    by (cases "hMAC H (HashType a) (cacheKey a p s) p e s")
  with hMAC_inv [OF inv, of a p e] have x: "x = Inr ?k" and s': "cache_inv H s'"
    by simp_all
  from r x s' show "fst (extendKeyBlumenthal H a p e s) = Inr (?k @ H (HashType a) ?k)"
    and "cache_inv H (snd (extendKeyBlumenthal H a p e s))"
    by (simp_all add: extendKeyBlumenthal_def hash_New_def hash_Write_def hash_Sum_def)
qed

lemma genlocalPrivKey_inv:
  assumes inv: "cache_inv H s"
  shows "cache_inv H (snd (genlocalPrivKey H pp a p e s))"
proof -
  note facts = extendKeyReeder_inv [OF inv, of a p e] extendKeyBlumenthal_inv [OF inv, of a p e]
    genlocalkey_inv [OF inv, of a p e]
  obtain x1 s1 where r1: "extendKeyReeder H a p e s = (x1, s1)" by (cases "extendKeyReeder H a p e s")
  obtain x2 s2 where r2: "extendKeyBlumenthal H a p e s = (x2, s2)" by (cases "extendKeyBlumenthal H a p e s")
  obtain x3 s3 where r3: "genlocalkey H a p e s = (x3, s3)" by (cases "genlocalkey H a p e s")
  from facts r1 r2 r3 show ?thesis
    by (simp add: genlocalPrivKey_def Let_def split: sum.splits)
qed

lemma reachable_inv: "reachable H s \<Longrightarrow> cache_inv H s"
  by (induction rule: reachable.induct)
     (simp_all add: cache_inv_initial cache_inv_PasswordCaching genlocalkey_inv genlocalPrivKey_inv)

lemma length_repeat_cyclic: "p \<noteq> [] \<Longrightarrow> length (repeat_cyclic n p) = n"
proof -
  assume "p \<noteq> []"
  then have "n \<le> n * length p" by (cases p) simp_all
  then show ?thesis by (simp add: repeat_cyclic_def length_concat_replicate)
qed

lemma nth_repeat_cyclic: "p \<noteq> [] \<Longrightarrow> i < n \<Longrightarrow> repeat_cyclic n p ! i = p ! (i mod length p)"
proof -
  assume p: "p \<noteq> []" and i: "i < n"
  then have "n \<le> n * length p" by (cases p) simp_all
  with i have "i < n * length p" by linarith
  with i show ?thesis by (simp add: repeat_cyclic_def nth_concat_replicate)
qed

subsection \<open>Key derivation: the claims\<close>

text \<open>
  A stand-in digest for the concrete instances below: 16 octets that depend on the
  algorithm and on the length and the sum of the input.
\<close>

definition example_digest :: digest_fn where
  "example_digest c bs =
     replicate 16 ((if c = CryptoMD5 then 1 else 2) + of_nat (length bs) + sum_list bs)"

text \<open>The cut to the cipher's key length, with the error for a key that is too short.\<close>

definition truncate_key :: "SnmpV3PrivProtocol \<Rightarrow> nat \<Rightarrow> bytes \<Rightarrow> error + bytes" where
  "truncate_key privProtocol keylen k =
     (if length k < keylen then Inl (ErrPrivKeyTooShort privProtocol (length k) keylen)
      else Inr (take keylen k))"

text \<open>
  Claim C2. For a non-empty passphrase \<open>p\<close>, \<open>hashPassword\<close> on a fresh hash object returns
  the digest of exactly 1,048,576 octets, octet \<open>i\<close> of which is \<open>p[i mod len(p)]\<close>; for the
  empty passphrase it returns an error; and in every state of the password cache that the
  package can reach, \<open>hMAC\<close> (called as \<open>genlocalkey\<close> calls it) and \<open>genlocalkey\<close> return
  \<open>H(Ku || engineID || Ku)\<close> with \<open>Ku\<close> the result of \<open>hashPassword\<close>.
\<close>

theorem password_to_key_localization:
  assumes "p \<noteq> []" and "reachable H s"
  shows "hashPassword H (hash_New c) p = Inr (H c (repeat_cyclic 1048576 p))
       \<and> length (repeat_cyclic 1048576 p) = 1048576
       \<and> (\<forall>i<1048576. repeat_cyclic 1048576 p ! i = p ! (i mod length p))
       \<and> hashPassword H h [] = Inl ErrPasswordEmpty
       \<and> (\<exists>Ku. hashPassword H (hash_New (HashType a)) p = Inr Ku
             \<and> fst (hMAC H (HashType a) (cacheKey a p s) p e s) = Inr (H (HashType a) (Ku @ e @ Ku))
             \<and> fst (genlocalkey H a p e s) = Inr (H (HashType a) (Ku @ e @ Ku)))"
proof -
  note inv = reachable_inv [OF assms(2)]
  have v: "hMAC_value H (HashType a) p e
             = H (HashType a) (passwordToKey H (HashType a) p @ e @ passwordToKey H (HashType a) p)"
    using assms(1) by (simp add: hMAC_value_def localize_def Let_def)
  have 1: "hashPassword H (hash_New c) p = Inr (H c (repeat_cyclic 1048576 p))" for c
    using assms(1) by (rule hashPassword_eq)
  have 2: "length (repeat_cyclic 1048576 p) = 1048576"
    using assms(1) by (rule length_repeat_cyclic)
  have 3: "\<forall>i<1048576. repeat_cyclic 1048576 p ! i = p ! (i mod length p)"
    using assms(1) by (simp add: nth_repeat_cyclic)
  have 4: "hashPassword H h [] = Inl ErrPasswordEmpty"
    by (simp add: hashPassword_def)
  have 5: "fst (hMAC H (HashType a) (cacheKey a p s) p e s)
             = Inr (H (HashType a) (passwordToKey H (HashType a) p @ e @ passwordToKey H (HashType a) p))"
    using hMAC_inv(1) [OF inv, of a p e] v by simp
  have 6: "fst (genlocalkey H a p e s)
             = Inr (H (HashType a) (passwordToKey H (HashType a) p @ e @ passwordToKey H (HashType a) p))"
    using genlocalkey_inv(1) [OF inv, of a p e] v by simp
  from 1 [of "HashType a"] 5 6 have
    "\<exists>Ku. hashPassword H (hash_New (HashType a)) p = Inr Ku
         \<and> fst (hMAC H (HashType a) (cacheKey a p s) p e s) = Inr (H (HashType a) (Ku @ e @ Ku))
         \<and> fst (genlocalkey H a p e s) = Inr (H (HashType a) (Ku @ e @ Ku))"
    by (simp add: passwordToKey_def)
  with 1 2 3 4 show ?thesis by blast
qed

text \<open>The instance for the passphrase \<open>abc\<close> in the initial state.\<close>

theorem password_to_key_localization_witness:
  "[0x61, 0x62, 0x63] \<noteq> ([] :: bytes) \<and> reachable example_digest initial_cache
   \<and> hashPassword example_digest (hash_New CryptoSHA1) [0x61, 0x62, 0x63]
       = Inr (example_digest CryptoSHA1 (repeat_cyclic 1048576 [0x61, 0x62, 0x63]))
   \<and> length (repeat_cyclic 1048576 [0x61, 0x62, 0x63 :: byte]) = 1048576
   \<and> repeat_cyclic 1048576 [0x61, 0x62, 0x63 :: byte] ! 4 = 0x62
   \<and> (\<exists>Ku. hashPassword example_digest (hash_New (HashType SHA)) [0x61, 0x62, 0x63] = Inr Ku
         \<and> fst (genlocalkey example_digest SHA [0x61, 0x62, 0x63] [0x80, 0] initial_cache)
             = Inr (example_digest (HashType SHA) (Ku @ [0x80, 0] @ Ku)))"
proof -
  have p: "[0x61, 0x62, 0x63] \<noteq> ([] :: bytes)" by simp
  have r: "reachable example_digest initial_cache" by (rule reachable.start)
  note t = password_to_key_localization [OF p r, of CryptoSHA1 "hash_New CryptoMD5" SHA "[0x80, 0]"]
  from t have "repeat_cyclic 1048576 [0x61, 0x62, 0x63 :: byte] ! 4 = 0x62" by simp
  with p r t show ?thesis by blast
qed

text \<open>
  Claim C3. The key that \<open>genlocalkey\<close> returns is the same in any two reachable states of
  the cache, so the same with caching enabled as with caching disabled; and
  \<open>PasswordCaching(false)\<close> followed by \<open>PasswordCaching(true)\<close> leaves an empty, enabled cache,
  whatever the state before.
\<close>

theorem password_cache_transparent:
  assumes "reachable H s1" and "reachable H s2"
  shows "fst (genlocalkey H a p e s1) = fst (genlocalkey H a p e s2)
       \<and> PasswordCaching True (PasswordCaching False s)
           = \<lparr>passwordKeyHashCache = Some Map.empty, passwordCacheDisable = False\<rparr>"
proof -
  have "fst (genlocalkey H a p e s1) = fst (genlocalkey H a p e s2)"
    using genlocalkey_inv(1) [OF reachable_inv [OF assms(1)], of a p e]
      genlocalkey_inv(1) [OF reachable_inv [OF assms(2)], of a p e] by simp
  moreover have "PasswordCaching True (PasswordCaching False s)
           = \<lparr>passwordKeyHashCache = Some Map.empty, passwordCacheDisable = False\<rparr>"
    by (simp add: PasswordCaching_def Let_def)
  ultimately show ?thesis by simp
qed

text \<open>
  The instance: an enabled cache that already holds the entry for the passphrase against
  the disabled cache.
\<close>

theorem password_cache_transparent_witness:
  "reachable example_digest (snd (genlocalkey example_digest MD5 [0x61, 0x62] [0x80, 1] initial_cache))
   \<and> reachable example_digest (PasswordCaching False initial_cache)
   \<and> \<not> passwordCacheDisable (snd (genlocalkey example_digest MD5 [0x61, 0x62] [0x80, 1] initial_cache))
   \<and> passwordCacheDisable (PasswordCaching False initial_cache)
   \<and> fst (genlocalkey example_digest MD5 [0x61, 0x62] [0x80, 1]
            (snd (genlocalkey example_digest MD5 [0x61, 0x62] [0x80, 1] initial_cache)))
       = fst (genlocalkey example_digest MD5 [0x61, 0x62] [0x80, 1] (PasswordCaching False initial_cache))"
proof -
  have r0: "reachable example_digest initial_cache" by (rule reachable.start)
  have r1: "reachable example_digest
              (snd (genlocalkey example_digest MD5 [0x61, 0x62] [0x80, 1] initial_cache))"
    using r0 by (rule reachable.localkey)
  have r2: "reachable example_digest (PasswordCaching False initial_cache)"
    using r0 by (rule reachable.caching)
  have d1: "\<not> passwordCacheDisable (snd (genlocalkey example_digest MD5 [0x61, 0x62] [0x80, 1] initial_cache))"
    by (simp add: genlocalkey_def hMAC_def cachedPasswordToKey_def cacheKey_def initial_cache_def
        map_read_def hashPassword_def Let_def split: prod.splits sum.splits)
  have d2: "passwordCacheDisable (PasswordCaching False initial_cache)"
    by (simp add: PasswordCaching_def Let_def)
  from password_cache_transparent [OF r1 r2, of MD5 "[0x61, 0x62]" "[0x80, 1]" initial_cache] r1 r2 d1 d2
  show ?thesis by blast
qed

text \<open>
  Claim C4. In every reachable cache state, with \<open>KuL\<close> the key that \<open>genlocalkey\<close> returns for
  the passphrase and \<open>KuL2\<close> the key that it returns for \<open>KuL\<close> as passphrase (for non-empty
  passphrases these are the localized keys \<open>H(Ku || engineID || Ku)\<close>), \<open>genlocalPrivKey\<close> returns
  for AES, AES192C and AES256C the Reeder extension \<open>KuL || KuL2\<close> and for AES192 and AES256
  the Blumenthal extension \<open>KuL || H(KuL)\<close>, cut to 16, 24 and 32 octets as the protocol asks,
  or the error when the extended key is shorter than that.
\<close>

theorem genlocalPrivKey_extension:
  assumes "reachable H s"
  shows "\<exists>KuL KuL2.
           fst (genlocalkey H a p e s) = Inr KuL
         \<and> fst (genlocalkey H a KuL e s) = Inr KuL2
         \<and> (p \<noteq> [] \<longrightarrow> KuL = localize H (HashType a) p e)
         \<and> (KuL \<noteq> [] \<longrightarrow> KuL2 = localize H (HashType a) KuL e)
         \<and> fst (genlocalPrivKey H AES a p e s) = truncate_key AES 16 (KuL @ KuL2)
         \<and> fst (genlocalPrivKey H AES192C a p e s) = truncate_key AES192C 24 (KuL @ KuL2)
         \<and> fst (genlocalPrivKey H AES256C a p e s) = truncate_key AES256C 32 (KuL @ KuL2)
         \<and> fst (genlocalPrivKey H AES192 a p e s)
             = truncate_key AES192 24 (KuL @ H (HashType a) KuL)
         \<and> fst (genlocalPrivKey H AES256 a p e s)
             = truncate_key AES256 32 (KuL @ H (HashType a) KuL)"
proof -
  note inv = reachable_inv [OF assms]
  let ?k = "hMAC_value H (HashType a) p e"
  let ?k2 = "hMAC_value H (HashType a) ?k e"
  have g1: "fst (genlocalkey H a p e s) = Inr ?k"
    by (rule genlocalkey_inv(1) [OF inv])
  have g2: "fst (genlocalkey H a ?k e s) = Inr ?k2"
    by (rule genlocalkey_inv(1) [OF inv])
  have l1: "p \<noteq> [] \<longrightarrow> ?k = localize H (HashType a) p e"
    by (simp add: hMAC_value_def)
  have l2: "?k \<noteq> [] \<longrightarrow> ?k2 = localize H (HashType a) ?k e"
    by (simp add: hMAC_value_def)
  obtain s1 where r: "extendKeyReeder H a p e s = (Inr (?k @ ?k2), s1)"
    using extendKeyReeder_inv(1) [OF inv, of a p e]
    by (cases "extendKeyReeder H a p e s") simp
  obtain s2 where b: "extendKeyBlumenthal H a p e s = (Inr (?k @ H (HashType a) ?k), s2)"
    using extendKeyBlumenthal_inv(1) [OF inv, of a p e]
    by (cases "extendKeyBlumenthal H a p e s") simp
  have 1: "fst (genlocalPrivKey H AES a p e s) = truncate_key AES 16 (?k @ ?k2)"
    by (simp add: genlocalPrivKey_def r truncate_key_def Let_def)
  have 2: "fst (genlocalPrivKey H AES192C a p e s) = truncate_key AES192C 24 (?k @ ?k2)"
    by (simp add: genlocalPrivKey_def r truncate_key_def Let_def)
  have 3: "fst (genlocalPrivKey H AES256C a p e s) = truncate_key AES256C 32 (?k @ ?k2)"
    by (simp add: genlocalPrivKey_def r truncate_key_def Let_def)
  have 4: "fst (genlocalPrivKey H AES192 a p e s)
             = truncate_key AES192 24 (?k @ H (HashType a) ?k)"
    by (simp add: genlocalPrivKey_def b truncate_key_def Let_def)
  have 5: "fst (genlocalPrivKey H AES256 a p e s)
             = truncate_key AES256 32 (?k @ H (HashType a) ?k)"
    by (simp add: genlocalPrivKey_def b truncate_key_def Let_def)
  from g1 g2 l1 l2 1 2 3 4 5 show ?thesis by blast
qed

text \<open>
  The instances with SHA and a 16-octet digest: the 32 octets of either extension are cut to
  16 or kept; the empty passphrase gives an empty extended key, hence the error.
\<close>

theorem genlocalPrivKey_extension_witness:
  "reachable example_digest initial_cache
   \<and> fst (genlocalkey example_digest SHA [0x70, 0x77] [0x80, 0, 0x1f] initial_cache)
       = Inr (localize example_digest (HashType SHA) [0x70, 0x77] [0x80, 0, 0x1f])
   \<and> fst (genlocalPrivKey example_digest AES SHA [0x70, 0x77] [0x80, 0, 0x1f] initial_cache)
       = Inr (localize example_digest (HashType SHA) [0x70, 0x77] [0x80, 0, 0x1f])
   \<and> fst (genlocalPrivKey example_digest AES256 SHA [0x70, 0x77] [0x80, 0, 0x1f] initial_cache)
       = Inr (localize example_digest (HashType SHA) [0x70, 0x77] [0x80, 0, 0x1f]
              @ example_digest (HashType SHA)
                  (localize example_digest (HashType SHA) [0x70, 0x77] [0x80, 0, 0x1f]))
   \<and> fst (genlocalPrivKey example_digest AES256C SHA [0x70, 0x77] [0x80, 0, 0x1f] initial_cache)
       = Inr (localize example_digest (HashType SHA) [0x70, 0x77] [0x80, 0, 0x1f]
              @ localize example_digest (HashType SHA)
                  (localize example_digest (HashType SHA) [0x70, 0x77] [0x80, 0, 0x1f])
                  [0x80, 0, 0x1f])
   \<and> fst (genlocalPrivKey example_digest AES SHA [] [0x80, 0, 0x1f] initial_cache)
       = Inl (ErrPrivKeyTooShort AES 0 16)"
proof -
  have r: "reachable example_digest initial_cache" by (rule reachable.start)
  have l: "length (localize example_digest c q e) = 16" for c q e
    by (simp add: localize_def example_digest_def Let_def)
  have d: "length (example_digest c bs) = 16" for c bs
    by (simp add: example_digest_def)
  let ?p = "[0x70, 0x77] :: bytes" and ?e = "[0x80, 0, 0x1f] :: bytes"
  let ?L = "localize example_digest (HashType SHA) ?p ?e"
  from genlocalPrivKey_extension [OF r, of SHA ?p ?e]
  obtain KuL KuL2 where k: "fst (genlocalkey example_digest SHA ?p ?e initial_cache) = Inr KuL"
    and k1: "KuL = ?L"
    and k2: "KuL \<noteq> [] \<longrightarrow> KuL2 = localize example_digest (HashType SHA) KuL ?e"
    and x: "fst (genlocalPrivKey example_digest AES SHA ?p ?e initial_cache)
              = truncate_key AES 16 (KuL @ KuL2)"
      "fst (genlocalPrivKey example_digest AES256 SHA ?p ?e initial_cache)
              = truncate_key AES256 32 (KuL @ example_digest (HashType SHA) KuL)"
      "fst (genlocalPrivKey example_digest AES256C SHA ?p ?e initial_cache)
              = truncate_key AES256C 32 (KuL @ KuL2)"
    by auto
  from k1 l [of "HashType SHA" ?p ?e] have "KuL \<noteq> []" by auto
  with k2 have k2': "KuL2 = localize example_digest (HashType SHA) KuL ?e" by simp
  from genlocalPrivKey_extension [OF r, of SHA "[]" ?e]
  obtain K K2 where e1: "fst (genlocalkey example_digest SHA [] ?e initial_cache) = Inr K"
    and e2: "fst (genlocalkey example_digest SHA K ?e initial_cache) = Inr K2"
    and e3: "fst (genlocalPrivKey example_digest AES SHA [] ?e initial_cache)
              = truncate_key AES 16 (K @ K2)"
    by auto
  have g: "fst (genlocalkey example_digest SHA [] ?e initial_cache) = Inr []"
    by (simp add: genlocalkey_def hMAC_def cachedPasswordToKey_def cacheKey_def initial_cache_def
        map_read_def hashPassword_def Let_def)
  with e1 have "K = []" by simp
  with e2 g have "K2 = []" by simp
  with \<open>K = []\<close> e3 have z: "fst (genlocalPrivKey example_digest AES SHA [] ?e initial_cache)
       = Inl (ErrPrivKeyTooShort AES 0 16)"
    by (simp add: truncate_key_def)
  from r k k1 x k2' z show ?thesis
    by (simp add: truncate_key_def l d)
qed

text \<open>
  Claim C6. Whenever the cached password step inside \<open>hMAC\<close> returns an error, \<open>hMAC\<close>
  returns the empty key and no error; for the empty passphrase the step does fail in every
  reachable state, so \<open>hMAC\<close> and \<open>genlocalkey\<close> return the empty key with a nil error.
\<close>

theorem hMAC_swallows_password_error:
  "(fst (cachedPasswordToKey H (hash_New c) ck p s) = Inl err \<and> err \<noteq> Panic
      \<longrightarrow> fst (hMAC H c ck p e s) = Inr [])
   \<and> (reachable H s
      \<longrightarrow> fst (cachedPasswordToKey H (hash_New (HashType a)) (cacheKey a [] s) [] s)
            = Inl ErrPasswordEmpty
        \<and> fst (hMAC H (HashType a) (cacheKey a [] s) [] e s) = Inr []
        \<and> fst (genlocalkey H a [] e s) = Inr [])"
proof (intro conjI impI)
  assume "fst (cachedPasswordToKey H (hash_New c) ck p s) = Inl err \<and> err \<noteq> Panic"
  then show "fst (hMAC H c ck p e s) = Inr []"
    by (cases "cachedPasswordToKey H (hash_New c) ck p s") (simp add: hMAC_def)
next
  assume r: "reachable H s"
  note inv = reachable_inv [OF r]
  show "fst (cachedPasswordToKey H (hash_New (HashType a)) (cacheKey a [] s) [] s) = Inl ErrPasswordEmpty"
    using cachedPasswordToKey_inv(1) [OF inv, of a "[]"] by simp
  show "fst (hMAC H (HashType a) (cacheKey a [] s) [] e s) = Inr []"
    using hMAC_inv(1) [OF inv, of a "[]" e] by (simp add: hMAC_value_def)
  show "fst (genlocalkey H a [] e s) = Inr []"
    using genlocalkey_inv(1) [OF inv, of a "[]" e] by (simp add: hMAC_value_def)
qed

text \<open>The instance: the empty passphrase in the initial state.\<close>

theorem hMAC_swallows_password_error_witness:
  "fst (cachedPasswordToKey example_digest (hash_New CryptoMD5) [0, 0x6a] [] initial_cache)
     = Inl ErrPasswordEmpty
   \<and> ErrPasswordEmpty \<noteq> Panic
   \<and> fst (hMAC example_digest CryptoMD5 [0, 0x6a] [] [0x80, 0] initial_cache) = Inr []
   \<and> reachable example_digest initial_cache
   \<and> fst (genlocalkey example_digest MD5 [] [0x80, 0] initial_cache) = Inr []"
proof -
  have c: "fst (cachedPasswordToKey example_digest (hash_New CryptoMD5) [0, 0x6a] [] initial_cache)
     = Inl ErrPasswordEmpty"
    by (simp add: cachedPasswordToKey_def initial_cache_def map_read_def hashPassword_def Let_def)
  have r: "reachable example_digest initial_cache" by (rule reachable.start)
  from hMAC_swallows_password_error
         [of example_digest CryptoMD5 "[0, 0x6a]" "[]" initial_cache ErrPasswordEmpty "[0x80, 0]" MD5]
       c r
  show ?thesis by simp
qed

section \<open>Salts, decryption and authentication (v3\_usm.go)\<close>

subsection \<open>The session's security parameters and the packet\<close>

text \<open>
  \<open>UsmSecurityParameters\<close> without its mutex and its logger. The two salt counters are
  \<open>uint64\<close> and \<open>uint32\<close>.
\<close>

record UsmSecurityParameters =
  localAESSalt :: "64 word"
  localDESSalt :: "32 word"
  AuthoritativeEngineID :: bytes
  AuthoritativeEngineBoots :: "32 word"
  AuthoritativeEngineTime :: "32 word"
  UserName :: bytes
  AuthenticationParameters :: bytes
  PrivacyParameters :: bytes
  AuthenticationProtocol :: SnmpV3AuthProtocol
  PrivacyProtocol :: SnmpV3PrivProtocol
  AuthenticationPassphrase :: bytes
  PrivacyPassphrase :: bytes
  SecretKey :: bytes
  PrivacyKey :: bytes

text \<open>
  Modelled from the spec: the message flags, which are declared outside the two source
  files. Bit 0 is "authenticated", bit 1 "encrypted", bit 2 "reportable", so the three
  security levels are 0, 1 and 3.
\<close>

type_synonym SnmpV3MsgFlags = "8 word"

abbreviation (input) NoAuthNoPriv :: SnmpV3MsgFlags where "NoAuthNoPriv \<equiv> 0"
abbreviation (input) AuthNoPriv :: SnmpV3MsgFlags where "AuthNoPriv \<equiv> 1"
abbreviation (input) AuthPriv :: SnmpV3MsgFlags where "AuthPriv \<equiv> 3"
abbreviation (input) Reportable :: SnmpV3MsgFlags where "Reportable \<equiv> 4"

text \<open>
  Modelled from the spec: the type tags of a variable binding (the closed set of section 3),
  the error-status codes (0 to 18, in the order of section 4.4) and the PDU type tags of
  section 6. All three are declared outside the two source files.
\<close>

datatype Asn1BER =
  Boolean | Integer | BitString | OctetString | Null | ObjectIdentifier | IPAddress
  | Counter32 | Gauge32 | TimeTicks | Opaque | Counter64 | Uinteger32 | OpaqueFloat
  | OpaqueDouble | NoSuchObject | NoSuchInstance | EndOfMibView

type_synonym SNMPError = "8 word"

abbreviation (input) NoError :: SNMPError where "NoError \<equiv> 0"
abbreviation (input) TooBig :: SNMPError where "TooBig \<equiv> 1"
abbreviation (input) NoSuchName :: SNMPError where "NoSuchName \<equiv> 2"
abbreviation (input) BadValue :: SNMPError where "BadValue \<equiv> 3"
abbreviation (input) ReadOnly :: SNMPError where "ReadOnly \<equiv> 4"
abbreviation (input) GenErr :: SNMPError where "GenErr \<equiv> 5"
abbreviation (input) NoAccess :: SNMPError where "NoAccess \<equiv> 6"
abbreviation (input) WrongType :: SNMPError where "WrongType \<equiv> 7"
abbreviation (input) WrongLength :: SNMPError where "WrongLength \<equiv> 8"
abbreviation (input) WrongEncoding :: SNMPError where "WrongEncoding \<equiv> 9"
abbreviation (input) WrongValue :: SNMPError where "WrongValue \<equiv> 10"
abbreviation (input) NoCreation :: SNMPError where "NoCreation \<equiv> 11"
abbreviation (input) InconsistentValue :: SNMPError where "InconsistentValue \<equiv> 12"
abbreviation (input) ResourceUnavailable :: SNMPError where "ResourceUnavailable \<equiv> 13"
abbreviation (input) CommitFailed :: SNMPError where "CommitFailed \<equiv> 14"
abbreviation (input) UndoFailed :: SNMPError where "UndoFailed \<equiv> 15"
abbreviation (input) AuthorizationError :: SNMPError where "AuthorizationError \<equiv> 16"
abbreviation (input) NotWritable :: SNMPError where "NotWritable \<equiv> 17"
abbreviation (input) InconsistentName :: SNMPError where "InconsistentName \<equiv> 18"

type_synonym PDUType = "8 word"

abbreviation (input) GetRequest :: PDUType where "GetRequest \<equiv> 0xA0"
abbreviation (input) GetNextRequest :: PDUType where "GetNextRequest \<equiv> 0xA1"
abbreviation (input) GetBulkRequest :: PDUType where "GetBulkRequest \<equiv> 0xA5"

text \<open>A variable binding; the value is an octet string or an integer here, the walk never reads it.\<close>

datatype pdu_value = NoValue | IntegerValue int | OctetsValue bytes

record SnmpPDU =
  Name :: string
  Type :: Asn1BER
  Value :: pdu_value

text \<open>
  The fields of \<open>SnmpPacket\<close> that the two files read. \<open>SecurityParameters\<close> is an interface
  value: \<open>None\<close> stands for nil and for every implementation other than
  \<open>*UsmSecurityParameters\<close>, which is what \<open>castUsmSecParams\<close> tells apart.
\<close>

record SnmpPacket =
  MsgFlags :: SnmpV3MsgFlags
  SecurityParameters :: "UsmSecurityParameters option"
  Error :: SNMPError
  Variables :: "SnmpPDU list"

definition castUsmSecParams :: "UsmSecurityParameters option \<Rightarrow> error + UsmSecurityParameters" where
  "castUsmSecParams secParams =
     (case secParams of None \<Rightarrow> Inl ErrNotUsmSecurityParameters | Some s \<Rightarrow> Inr s)"

subsection \<open>Salt allocation\<close>

text \<open>\<open>binary.BigEndian.PutUint32\<close> and \<open>PutUint64\<close> into a fresh slice.\<close>

definition putUint32 :: "32 word \<Rightarrow> bytes" where
  "putUint32 v = [ucast (drop_bit 24 v), ucast (drop_bit 16 v), ucast (drop_bit 8 v), ucast v]"

definition putUint64 :: "64 word \<Rightarrow> bytes" where
  "putUint64 v =
     [ucast (drop_bit 56 v), ucast (drop_bit 48 v), ucast (drop_bit 40 v), ucast (drop_bit 32 v),
      ucast (drop_bit 24 v), ucast (drop_bit 16 v), ucast (drop_bit 8 v), ucast v]"

text \<open>The case list \<open>AES, AES192, AES256, AES192C, AES256C\<close> of the switches on the privacy protocol.\<close>

definition aesFamily :: "SnmpV3PrivProtocol \<Rightarrow> bool" where
  "aesFamily privProtocol \<longleftrightarrow>
     privProtocol = AES \<or> privProtocol = AES192 \<or> privProtocol = AES256
     \<or> privProtocol = AES192C \<or> privProtocol = AES256C"

text \<open>The salt travels as an \<open>interface{}\<close> that holds a \<open>uint64\<close> or a \<open>uint32\<close>.\<close>

datatype salt = SaltUint64 "64 word" | SaltUint32 "32 word"

definition usmAllocateNewSalt :: "UsmSecurityParameters \<Rightarrow> salt \<times> UsmSecurityParameters" where
  "usmAllocateNewSalt sp =
     (if aesFamily (PrivacyProtocol sp)
      then (SaltUint64 (localAESSalt sp + 1), sp\<lparr>localAESSalt := localAESSalt sp + 1\<rparr>)
      else (SaltUint32 (localDESSalt sp + 1), sp\<lparr>localDESSalt := localDESSalt sp + 1\<rparr>))"

definition usmSetSalt :: "UsmSecurityParameters \<Rightarrow> salt \<Rightarrow> error + UsmSecurityParameters" where
  "usmSetSalt sp newSalt =
     (if aesFamily (PrivacyProtocol sp)
      then (case newSalt of
              SaltUint64 aesSalt \<Rightarrow> Inr (sp\<lparr>PrivacyParameters := putUint64 aesSalt\<rparr>)
            | SaltUint32 _ \<Rightarrow> Inl ErrSaltTypeAES)
      else (case newSalt of
              SaltUint32 desSalt \<Rightarrow>
                Inr (sp\<lparr>PrivacyParameters :=
                           putUint32 (AuthoritativeEngineBoots sp) @ putUint32 desSalt\<rparr>)
            | SaltUint64 _ \<Rightarrow> Inl ErrSaltTypeDES))"

text \<open>
  \<open>InitPacket\<close> changes the session's parameters (the counter) and the packet's parameters
  (the salt); the packet carries its own copy of the parameters, so the two are separate
  values. The result is the error, the session's parameters and the packet afterwards.
\<close>

definition InitPacket ::
  "UsmSecurityParameters \<Rightarrow> SnmpPacket \<Rightarrow> error option \<times> UsmSecurityParameters \<times> SnmpPacket" where
  "InitPacket sp packet =
     (case usmAllocateNewSalt sp of
        (newSalt, sp') \<Rightarrow>
          if (MsgFlags packet AND AuthPriv) > AuthNoPriv
          then (case castUsmSecParams (SecurityParameters packet) of
                  Inl err \<Rightarrow> (Some err, sp', packet)
                | Inr s \<Rightarrow>
                    (case usmSetSalt s newSalt of
                       Inl err \<Rightarrow> (Some err, sp', packet)
                     | Inr s' \<Rightarrow> (None, sp', packet\<lparr>SecurityParameters := Some s'\<rparr>)))
          else (None, sp', packet))"

text \<open>A DES session one step before its 32-bit counter is full, and an AuthPriv packet for it.\<close>

definition example_session :: UsmSecurityParameters where
  "example_session =
     \<lparr>localAESSalt = 0x0102030405060708, localDESSalt = 0xFFFFFFFE,
      AuthoritativeEngineID = [0x80, 0, 0x1f, 0x88], AuthoritativeEngineBoots = 5,
      AuthoritativeEngineTime = 1000, UserName = [0x75, 0x31],
      AuthenticationParameters = [], PrivacyParameters = [],
      AuthenticationProtocol = SHA, PrivacyProtocol = DES,
      AuthenticationPassphrase = [0x61, 0x62], PrivacyPassphrase = [0x63, 0x64],
      SecretKey = [], PrivacyKey = []\<rparr>"

definition example_packet :: SnmpPacket where
  "example_packet =
     \<lparr>MsgFlags = AuthPriv, SecurityParameters = Some example_session, Error = NoError,
      Variables = []\<rparr>"

lemma word_inc_less: "(x :: 'a::len word) \<noteq> - 1 \<Longrightarrow> x < x + 1"
  by (metis inc_less_eq_triv_imp linorder_less_linear word_le_less_eq)

text \<open>
  Claim C5, as stated, fails where the counter is full: the session's first call returns
  \<open>0xFFFFFFFF\<close> and its second call returns 0, which is not greater.
\<close>

theorem salt_counter_wraps_counterexample:
  "fst (usmAllocateNewSalt example_session) = SaltUint32 0xFFFFFFFF
   \<and> fst (usmAllocateNewSalt (snd (usmAllocateNewSalt example_session))) = SaltUint32 0
   \<and> \<not> (0xFFFFFFFF :: 32 word) < 0"
  by (simp add: usmAllocateNewSalt_def example_session_def aesFamily_def)

text \<open>
  Claim C5, amended. \<open>usmAllocateNewSalt\<close> returns the counter plus one, modulo \<open>2^64\<close> for the
  AES family and modulo \<open>2^32\<close> for every other protocol, and stores it; the result is greater
  than the value before unless the counter was full. \<open>InitPacket\<close> advances the session's
  counter for every packet. It leaves the packet alone unless \<open>MsgFlags & AuthPriv > AuthNoPriv\<close>,
  and then, for packet parameters of the session's protocol family, installs the 8-octet
  big-endian counter (AES) or the packet's 4-octet big-endian engineBoots followed by the
  4-octet big-endian counter (DES and the rest) as \<open>PrivacyParameters\<close>.
\<close>

theorem salt_allocation:
  "(aesFamily (PrivacyProtocol sp) \<longrightarrow>
      usmAllocateNewSalt sp
        = (SaltUint64 (localAESSalt sp + 1), sp\<lparr>localAESSalt := localAESSalt sp + 1\<rparr>)
      \<and> (localAESSalt sp \<noteq> - 1 \<longrightarrow> localAESSalt sp < localAESSalt sp + 1))
   \<and> (\<not> aesFamily (PrivacyProtocol sp) \<longrightarrow>
      usmAllocateNewSalt sp
        = (SaltUint32 (localDESSalt sp + 1), sp\<lparr>localDESSalt := localDESSalt sp + 1\<rparr>)
      \<and> (localDESSalt sp \<noteq> - 1 \<longrightarrow> localDESSalt sp < localDESSalt sp + 1))
   \<and> fst (snd (InitPacket sp packet)) = snd (usmAllocateNewSalt sp)
   \<and> (\<not> (MsgFlags packet AND AuthPriv) > AuthNoPriv \<longrightarrow>
      InitPacket sp packet = (None, snd (usmAllocateNewSalt sp), packet))
   \<and> ((MsgFlags packet AND AuthPriv) > AuthNoPriv \<and> SecurityParameters packet = Some s
        \<and> aesFamily (PrivacyProtocol sp) \<and> aesFamily (PrivacyProtocol s) \<longrightarrow>
      InitPacket sp packet
        = (None, snd (usmAllocateNewSalt sp),
           packet\<lparr>SecurityParameters :=
                    Some (s\<lparr>PrivacyParameters := putUint64 (localAESSalt sp + 1)\<rparr>)\<rparr>))
   \<and> ((MsgFlags packet AND AuthPriv) > AuthNoPriv \<and> SecurityParameters packet = Some s
        \<and> \<not> aesFamily (PrivacyProtocol sp) \<and> \<not> aesFamily (PrivacyProtocol s) \<longrightarrow>
      InitPacket sp packet
        = (None, snd (usmAllocateNewSalt sp),
           packet\<lparr>SecurityParameters :=
                    Some (s\<lparr>PrivacyParameters :=
                              putUint32 (AuthoritativeEngineBoots s)
                              @ putUint32 (localDESSalt sp + 1)\<rparr>)\<rparr>))
   \<and> length (putUint64 v) = 8 \<and> length (putUint32 u) = 4"
proof -
  have 1: "aesFamily (PrivacyProtocol sp) \<longrightarrow>
      usmAllocateNewSalt sp
        = (SaltUint64 (localAESSalt sp + 1), sp\<lparr>localAESSalt := localAESSalt sp + 1\<rparr>)
      \<and> (localAESSalt sp \<noteq> - 1 \<longrightarrow> localAESSalt sp < localAESSalt sp + 1)"
    by (simp add: usmAllocateNewSalt_def word_inc_less)
  have 2: "\<not> aesFamily (PrivacyProtocol sp) \<longrightarrow>
      usmAllocateNewSalt sp
        = (SaltUint32 (localDESSalt sp + 1), sp\<lparr>localDESSalt := localDESSalt sp + 1\<rparr>)
      \<and> (localDESSalt sp \<noteq> - 1 \<longrightarrow> localDESSalt sp < localDESSalt sp + 1)"
    by (simp add: usmAllocateNewSalt_def word_inc_less)
  have 3: "fst (snd (InitPacket sp packet)) = snd (usmAllocateNewSalt sp)"
    by (simp add: InitPacket_def split: prod.splits sum.splits)
  have 4: "\<not> (MsgFlags packet AND AuthPriv) > AuthNoPriv \<longrightarrow>
      InitPacket sp packet = (None, snd (usmAllocateNewSalt sp), packet)"
    by (simp add: InitPacket_def split: prod.splits)
  have 5: "(MsgFlags packet AND AuthPriv) > AuthNoPriv \<and> SecurityParameters packet = Some s
        \<and> aesFamily (PrivacyProtocol sp) \<and> aesFamily (PrivacyProtocol s) \<longrightarrow>
      InitPacket sp packet
        = (None, snd (usmAllocateNewSalt sp),
           packet\<lparr>SecurityParameters :=
                    Some (s\<lparr>PrivacyParameters := putUint64 (localAESSalt sp + 1)\<rparr>)\<rparr>)"
    by (simp add: InitPacket_def usmAllocateNewSalt_def usmSetSalt_def castUsmSecParams_def)
  have 6: "(MsgFlags packet AND AuthPriv) > AuthNoPriv \<and> SecurityParameters packet = Some s
        \<and> \<not> aesFamily (PrivacyProtocol sp) \<and> \<not> aesFamily (PrivacyProtocol s) \<longrightarrow>
      InitPacket sp packet
        = (None, snd (usmAllocateNewSalt sp),
           packet\<lparr>SecurityParameters :=
                    Some (s\<lparr>PrivacyParameters :=
                              putUint32 (AuthoritativeEngineBoots s)
                              @ putUint32 (localDESSalt sp + 1)\<rparr>)\<rparr>)"
    by (simp add: InitPacket_def usmAllocateNewSalt_def usmSetSalt_def castUsmSecParams_def)
  have 7: "length (putUint64 v) = 8 \<and> length (putUint32 u) = 4"
    by (simp add: putUint64_def putUint32_def)
  from 1 2 3 4 5 6 7 show ?thesis by blast
qed

text \<open>The instances: an AES session, the DES session, and a packet without privacy.\<close>

theorem salt_allocation_witness:
  "aesFamily (PrivacyProtocol (example_session\<lparr>PrivacyProtocol := AES\<rparr>))
   \<and> localAESSalt (example_session\<lparr>PrivacyProtocol := AES\<rparr>) \<noteq> - 1
   \<and> fst (usmAllocateNewSalt (example_session\<lparr>PrivacyProtocol := AES\<rparr>))
       = SaltUint64 0x0102030405060709
   \<and> (0x0102030405060708 :: 64 word) < 0x0102030405060709
   \<and> (MsgFlags example_packet AND AuthPriv) > AuthNoPriv
   \<and> PrivacyParameters (the (SecurityParameters (snd (snd
        (InitPacket (example_session\<lparr>PrivacyProtocol := AES\<rparr>)
           (example_packet\<lparr>SecurityParameters :=
               Some (example_session\<lparr>PrivacyProtocol := AES\<rparr>)\<rparr>))))))
       = [1, 2, 3, 4, 5, 6, 7, 9]
   \<and> \<not> aesFamily (PrivacyProtocol example_session)
   \<and> localDESSalt example_session \<noteq> - 1
   \<and> fst (usmAllocateNewSalt example_session) = SaltUint32 0xFFFFFFFF
   \<and> PrivacyParameters (the (SecurityParameters (snd (snd (InitPacket example_session example_packet)))))
       = [0, 0, 0, 5, 0xFF, 0xFF, 0xFF, 0xFF]
   \<and> \<not> (MsgFlags (example_packet\<lparr>MsgFlags := AuthNoPriv\<rparr>) AND AuthPriv) > AuthNoPriv
   \<and> InitPacket example_session (example_packet\<lparr>MsgFlags := AuthNoPriv\<rparr>)
       = (None, example_session\<lparr>localDESSalt := 0xFFFFFFFF\<rparr>, example_packet\<lparr>MsgFlags := AuthNoPriv\<rparr>)"
proof -
  let ?aes = "example_session\<lparr>PrivacyProtocol := AES\<rparr>"
  note a = salt_allocation [of ?aes "example_packet\<lparr>SecurityParameters := Some ?aes\<rparr>" ?aes 0 0]
  note d = salt_allocation [of example_session example_packet example_session 0 0]
  note n = salt_allocation [of example_session "example_packet\<lparr>MsgFlags := AuthNoPriv\<rparr>" example_session 0 0]
  have h1: "aesFamily (PrivacyProtocol ?aes)" "localAESSalt ?aes \<noteq> - 1"
    "\<not> aesFamily (PrivacyProtocol example_session)" "localDESSalt example_session \<noteq> - 1"
    "(MsgFlags example_packet AND AuthPriv) > AuthNoPriv"
    "\<not> (MsgFlags (example_packet\<lparr>MsgFlags := AuthNoPriv\<rparr>) AND AuthPriv) > AuthNoPriv"
    by (simp_all add: example_session_def example_packet_def aesFamily_def)
  from a h1 have a': "fst (usmAllocateNewSalt ?aes) = SaltUint64 0x0102030405060709"
    "PrivacyParameters (the (SecurityParameters (snd (snd
        (InitPacket ?aes (example_packet\<lparr>SecurityParameters := Some ?aes\<rparr>))))))
       = [1, 2, 3, 4, 5, 6, 7, 9]"
    by (simp_all add: example_session_def example_packet_def putUint64_def)
  from d h1 have d': "fst (usmAllocateNewSalt example_session) = SaltUint32 0xFFFFFFFF"
    "PrivacyParameters (the (SecurityParameters (snd (snd (InitPacket example_session example_packet)))))
       = [0, 0, 0, 5, 0xFF, 0xFF, 0xFF, 0xFF]"
    by (simp_all add: example_session_def example_packet_def putUint32_def)
  from n h1 have n': "InitPacket example_session (example_packet\<lparr>MsgFlags := AuthNoPriv\<rparr>)
       = (None, example_session\<lparr>localDESSalt := 0xFFFFFFFF\<rparr>, example_packet\<lparr>MsgFlags := AuthNoPriv\<rparr>)"
    by (simp add: example_session_def)
  from h1 a' d' n' show ?thesis by simp
qed

subsection \<open>Decryption\<close>

text \<open>
  The ciphers are Go's standard library: \<open>aesCFBDecrypt key iv src\<close> and
  \<open>desCBCDecrypt key iv src\<close> stand for \<open>XORKeyStream\<close> and \<open>CryptBlocks\<close> into a fresh slice
  of the length of \<open>src\<close>. \<open>parseLength\<close> belongs to the package, in a file that is not at
  hand; it is a parameter that returns the error or the pair (length, cursor).
\<close>

type_synonym cipher_fn = "bytes \<Rightarrow> bytes \<Rightarrow> bytes \<Rightarrow> bytes"

text \<open>\<open>copy(packet[cursor:], src)\<close>: the buffer afterwards.\<close>

definition copy_into :: "bytes \<Rightarrow> nat \<Rightarrow> bytes \<Rightarrow> bytes" where
  "copy_into packet cursor src =
     take cursor packet @ take (length packet - cursor) src @ drop (cursor + length src) packet"

text \<open>
  \<open>decryptPacket\<close> writes into the caller's buffer, so the result is the returned slice (or
  the error) together with the buffer afterwards. Slicing out of range, and indexing a key or
  a salt that is too short, panic.
\<close>

definition decryptPacket ::
  "(bytes \<Rightarrow> error + nat \<times> nat) \<Rightarrow> cipher_fn \<Rightarrow> cipher_fn \<Rightarrow> UsmSecurityParameters
     \<Rightarrow> bytes \<Rightarrow> nat \<Rightarrow> (error + bytes) \<times> bytes" where
  "decryptPacket parseLength aesCFBDecrypt desCBCDecrypt sp packet cursor =
     (if cursor > length packet then (Inl Panic, packet)
      else case parseLength (drop cursor packet) of
        Inl err \<Rightarrow> (Inl err, packet)
      | Inr (len, cursorTmp0) \<Rightarrow>
          (let cursorTmp = cursorTmp0 + cursor in
           if cursorTmp > length packet then (Inl ErrTruncatedPacket, packet)
           else if aesFamily (PrivacyProtocol sp) then
             (let iv = putUint32 (AuthoritativeEngineBoots sp)
                       @ putUint32 (AuthoritativeEngineTime sp)
                       @ take 8 (PrivacyParameters sp @ replicate 8 0)
              in if length (PrivacyKey sp) \<noteq> 16 \<and> length (PrivacyKey sp) \<noteq> 24
                    \<and> length (PrivacyKey sp) \<noteq> 32
                 then (Inl ErrCipherKeySize, packet)
                 else (let plaintext = aesCFBDecrypt (PrivacyKey sp) iv (drop cursorTmp packet);
                           packet' = copy_into packet cursor plaintext
                       in if cursor + length plaintext \<le> length packet'
                          then (Inr (take (cursor + length plaintext) packet'), packet')
                          else (Inl Panic, packet')))
           else if PrivacyProtocol sp = DES then
             (if length (drop cursorTmp packet) mod 8 \<noteq> 0
              then (Inl ErrNotMultipleOfDesBlockSize, packet)
              else if length (PrivacyKey sp) < 16 \<or> length (PrivacyParameters sp) < 8
              then (Inl Panic, packet)
              else (let preiv = drop 8 (PrivacyKey sp);
                        iv = map (\<lambda>(a, b). a XOR b) (zip (take 8 preiv) (take 8 (PrivacyParameters sp)));
                        plaintext = desCBCDecrypt (take 8 (PrivacyKey sp)) iv (drop cursorTmp packet);
                        packet' = copy_into packet cursor plaintext
                    in if cursor + length plaintext \<le> length packet'
                       then (Inr (take (cursor + length plaintext) packet'), packet')
                       else (Inl Panic, packet')))
           else (Inr packet, packet)))"

subsection \<open>Authentication\<close>

text \<open>
  \<open>macVarbinds\<close>: the zeroed placeholders, indexed by the authentication protocol. 4 is the
  BER tag of an octet string; only the lengths of the entries matter below.
\<close>

definition macVarbinds :: "bytes list" where
  "macVarbinds =
     [[],
      [4, 0],
      [4, 12] @ replicate 12 0,
      [4, 12] @ replicate 12 0,
      [4, 16] @ replicate 16 0,
      [4, 24] @ replicate 24 0,
      [4, 32] @ replicate 32 0,
      [4, 48] @ replicate 48 0]"

text \<open>
  \<open>s[:n]\<close> on a slice: the first \<open>n\<close> octets, a panic when \<open>n\<close> is negative or beyond the
  slice. (Go allows \<open>n\<close> up to the capacity; the digests sliced here are longer than every
  \<open>n\<close> used.)
\<close>

definition slice_to :: "bytes \<Rightarrow> int \<Rightarrow> error + bytes" where
  "slice_to s n = (if n < 0 \<or> int (length s) < n then Inl Panic else Inr (take (nat n) s))"

text \<open>
  \<open>digestRFC3414\<close>: the key is copied into 64 zero octets, xored with the two pads, and
  hashed with the packet; 12 octets of the second digest are the result. For a protocol
  other than MD5 and SHA the two hash objects stay nil and the first \<open>Write\<close> panics.
\<close>

definition digestRFC3414 :: "digest_fn \<Rightarrow> SnmpV3AuthProtocol \<Rightarrow> bytes \<Rightarrow> bytes \<Rightarrow> error + bytes" where
  "digestRFC3414 H h packet authKey =
     (let extkey = take 64 (authKey @ replicate 64 0);
          k1 = map (\<lambda>b. b XOR 0x36) extkey;
          k2 = map (\<lambda>b. b XOR 0x5c) extkey
      in if h = MD5 \<or> h = SHA
         then (let c = (if h = MD5 then CryptoMD5 else CryptoSHA1);
                   d1 = H c (k1 @ packet)
               in slice_to (H c (k2 @ d1)) 12)
         else Inl Panic)"

text \<open>\<open>digestRFC7860\<close>: Go's \<open>crypto/hmac\<close>, the parameter \<open>hmac c key message\<close>.\<close>

type_synonym hmac_fn = "crypto_Hash \<Rightarrow> bytes \<Rightarrow> bytes \<Rightarrow> bytes"

definition digestRFC7860 :: "hmac_fn \<Rightarrow> SnmpV3AuthProtocol \<Rightarrow> bytes \<Rightarrow> bytes \<Rightarrow> error + bytes" where
  "digestRFC7860 hmac h packet authKey = Inr (hmac (HashType h) authKey packet)"

definition calcPacketDigest ::
  "digest_fn \<Rightarrow> hmac_fn \<Rightarrow> bytes \<Rightarrow> UsmSecurityParameters \<Rightarrow> error + bytes" where
  "calcPacketDigest H hmac packetBytes secParams =
     (let p = AuthenticationProtocol secParams;
          r = (if p = MD5 \<or> p = SHA then digestRFC3414 H p packetBytes (SecretKey secParams)
               else if p = SHA224 \<or> p = SHA256 \<or> p = SHA384 \<or> p = SHA512
               then digestRFC7860 hmac p packetBytes (SecretKey secParams)
               else Inr [])
      in case r of
           Inl err \<Rightarrow> Inl err
         | Inr digest \<Rightarrow>
             if unat p < length macVarbinds
             then slice_to digest (int (length (macVarbinds ! unat p)) - 2)
             else Inl Panic)"

text \<open>
  \<open>subtle.ConstantTimeCompare\<close>, as Go's library has it: 0 for slices of different lengths,
  otherwise the xor of each pair of octets is or-ed into one octet, which is compared with 0.
\<close>

definition ConstantTimeByteEq :: "byte \<Rightarrow> byte \<Rightarrow> int" where
  "ConstantTimeByteEq x y = (if x = y then 1 else 0)"

definition ConstantTimeCompare :: "bytes \<Rightarrow> bytes \<Rightarrow> int" where
  "ConstantTimeCompare x y =
     (if length x \<noteq> length y then 0
      else ConstantTimeByteEq (foldl (\<lambda>v (a, b). v OR (a XOR b)) 0 (zip x y)) 0)"

text \<open>\<open>isAuthentic\<close>: \<open>(b, nil)\<close> is \<open>Inr b\<close>, and \<open>(false, err)\<close> is \<open>Inl err\<close>.\<close>

definition isAuthentic ::
  "digest_fn \<Rightarrow> hmac_fn \<Rightarrow> UsmSecurityParameters \<Rightarrow> bytes \<Rightarrow> SnmpPacket \<Rightarrow> error + bool" where
  "isAuthentic H hmac sp packetBytes packet =
     (case castUsmSecParams (SecurityParameters packet) of
        Inl err \<Rightarrow> Inl err
      | Inr packetSecParams \<Rightarrow>
          if UserName packetSecParams \<noteq> UserName sp then Inr False
          else (case calcPacketDigest H hmac packetBytes packetSecParams of
                  Inl err \<Rightarrow> Inl err
                | Inr msgDigest \<Rightarrow>
                    Inr (ConstantTimeCompare msgDigest (AuthenticationParameters packetSecParams) = 1)))"

subsection \<open>Decryption and authentication: the claims\<close>

lemma or_xor_fold:
  "length x = length y \<Longrightarrow>
   (foldl (\<lambda>v (a, b). v OR (a XOR b)) (v0 :: byte) (zip x y) = 0) = (v0 = 0 \<and> x = y)"
proof (induction x y arbitrary: v0 rule: list_induct2)
  case Nil
  then show ?case by simp
next
  case (Cons a x b y)
  have "(v0 OR (a XOR b) = 0) = (v0 = 0 \<and> a = b)"
    by (metis bit.xor_left_self or_eq_0_iff xor.right_neutral)
  with Cons.IH [of "v0 OR (a XOR b)"] show ?case by auto
qed

lemma ConstantTimeCompare_eq: "(ConstantTimeCompare x y = 1) = (x = y)"
  by (auto simp: ConstantTimeCompare_def ConstantTimeByteEq_def or_xor_fold)

text \<open>A stand-in for \<open>parseLength\<close> in the instances: the short form of a BER length.\<close>

definition example_parseLength :: "bytes \<Rightarrow> error + nat \<times> nat" where
  "example_parseLength bs =
     (if length bs \<le> 2 then Inr (length bs, length bs)
      else if bs ! 1 \<le> 127 then Inr (unat (bs ! 1) + 2, 2)
      else Inl ErrParseLength)"

text \<open>A stand-in cipher for the instances; it keeps the length of its input.\<close>

definition example_cipher :: cipher_fn where
  "example_cipher key iv src = map (\<lambda>b. b XOR 0x2a) src"

text \<open>
  Claim C7. Let the session use DES and let the header of the encrypted scoped PDU parse, so
  that the ciphertext is the rest of the packet after the header. If the length of the
  ciphertext is no multiple of 8, \<open>decryptPacket\<close> fails with "error decrypting ScopedPDU:
  not multiple of des block size" and the buffer is as it was; and every call that returns a
  packet had a ciphertext whose length is a multiple of 8.
\<close>

theorem decryptPacket_des_block_size:
  assumes "PrivacyProtocol sp = DES" and "cursor \<le> length packet"
    and "parseLength (drop cursor packet) = Inr (len, cursorTmp)"
    and "cursorTmp + cursor \<le> length packet"
  shows "(length (drop (cursorTmp + cursor) packet) mod 8 \<noteq> 0 \<longrightarrow>
            decryptPacket parseLength aesCFBDecrypt desCBCDecrypt sp packet cursor
              = (Inl ErrNotMultipleOfDesBlockSize, packet))
       \<and> (\<forall>out. fst (decryptPacket parseLength aesCFBDecrypt desCBCDecrypt sp packet cursor) = Inr out
             \<longrightarrow> length (drop (cursorTmp + cursor) packet) mod 8 = 0)"
  using assms
  by (auto simp: decryptPacket_def aesFamily_def Let_def split: if_splits)

text \<open>The instance: a ciphertext of 9 octets behind a two-octet header at cursor 1.\<close>

theorem decryptPacket_des_block_size_witness:
  "PrivacyProtocol example_session = DES
   \<and> example_parseLength (drop 1 [0x30, 0x04, 0x09, 1, 2, 3, 4, 5, 6, 7, 8, 9]) = Inr (11, 2)
   \<and> length (drop (2 + 1) [0x30, 0x04, 0x09, 1, 2, 3, 4, 5, 6, 7, 8, 9 :: byte]) = 9
   \<and> decryptPacket example_parseLength example_cipher example_cipher example_session
        [0x30, 0x04, 0x09, 1, 2, 3, 4, 5, 6, 7, 8, 9] 1
       = (Inl ErrNotMultipleOfDesBlockSize, [0x30, 0x04, 0x09, 1, 2, 3, 4, 5, 6, 7, 8, 9])"
proof -
  have p: "PrivacyProtocol example_session = DES" by (simp add: example_session_def)
  have c: "1 \<le> length [0x30, 0x04, 0x09, 1, 2, 3, 4, 5, 6, 7, 8, 9 :: byte]" by simp
  have l: "example_parseLength (drop 1 [0x30, 0x04, 0x09, 1, 2, 3, 4, 5, 6, 7, 8, 9]) = Inr (11, 2)"
    by (simp add: example_parseLength_def)
  have t: "2 + 1 \<le> length [0x30, 0x04, 0x09, 1, 2, 3, 4, 5, 6, 7, 8, 9 :: byte]" by simp
  from decryptPacket_des_block_size
         [where parseLength = example_parseLength and aesCFBDecrypt = example_cipher
            and desCBCDecrypt = example_cipher, OF p c l t] p l
  show ?thesis by simp
qed

text \<open>A stand-in for \<open>crypto/hmac\<close> in the instances.\<close>

definition example_hmac :: hmac_fn where
  "example_hmac c key message = example_digest c (key @ message)"

text \<open>
  Claim C10. For a packet that carries USM security parameters: when their user name
  differs from the session's, \<open>isAuthentic\<close> returns \<open>(false, nil)\<close>, whatever the digest
  functions are and whatever the digest computation would do; when the names are equal and
  the digest of the packet bytes is computed, the result is \<open>true\<close> exactly when the digest
  equals the packet's \<open>AuthenticationParameters\<close>, and \<open>(true, nil)\<close> is returned in no other
  case.
\<close>

theorem isAuthentic_user_then_digest:
  assumes "SecurityParameters packet = Some psp"
  shows "(UserName psp \<noteq> UserName sp \<longrightarrow> isAuthentic H hmac sp packetBytes packet = Inr False)
       \<and> (UserName psp = UserName sp \<and> calcPacketDigest H hmac packetBytes psp = Inr d \<longrightarrow>
            isAuthentic H hmac sp packetBytes packet = Inr (d = AuthenticationParameters psp))
       \<and> (UserName psp = UserName sp \<longrightarrow>
            (isAuthentic H hmac sp packetBytes packet = Inr True)
              = (calcPacketDigest H hmac packetBytes psp = Inr (AuthenticationParameters psp)))"
  using assms
  by (auto simp: isAuthentic_def castUsmSecParams_def ConstantTimeCompare_eq split: sum.splits)

text \<open>
  The instances: another user name; the right digest; the digest with one bit of its first
  octet flipped.
\<close>

theorem isAuthentic_user_then_digest_witness:
  "UserName (example_session\<lparr>UserName := [0x75, 0x32]\<rparr>) \<noteq> UserName example_session
   \<and> isAuthentic example_digest example_hmac example_session [0x30, 0x03, 1, 2, 3]
        (example_packet\<lparr>SecurityParameters := Some (example_session\<lparr>UserName := [0x75, 0x32]\<rparr>)\<rparr>)
       = Inr False
   \<and> calcPacketDigest example_digest example_hmac [0x30, 0x03, 1, 2, 3]
        (example_session\<lparr>AuthenticationParameters := replicate 12 0x52\<rparr>)
       = Inr (replicate 12 0x52)
   \<and> isAuthentic example_digest example_hmac example_session [0x30, 0x03, 1, 2, 3]
        (example_packet\<lparr>SecurityParameters :=
           Some (example_session\<lparr>AuthenticationParameters := replicate 12 0x52\<rparr>)\<rparr>)
       = Inr True
   \<and> isAuthentic example_digest example_hmac example_session [0x30, 0x03, 1, 2, 3]
        (example_packet\<lparr>SecurityParameters :=
           Some (example_session\<lparr>AuthenticationParameters := 0x53 # replicate 11 0x52\<rparr>)\<rparr>)
       = Inr False"
proof -
  let ?pb = "[0x30, 0x03, 1, 2, 3] :: bytes"
  let ?other = "example_session\<lparr>UserName := [0x75, 0x32]\<rparr>"
  let ?good = "example_session\<lparr>AuthenticationParameters := replicate 12 0x52\<rparr>"
  let ?bad = "example_session\<lparr>AuthenticationParameters := 0x53 # replicate 11 0x52\<rparr>"
  have u: "UserName ?other \<noteq> UserName example_session"
    "UserName ?good = UserName example_session" "UserName ?bad = UserName example_session"
    by (simp_all add: example_session_def)
  have d: "calcPacketDigest example_digest example_hmac ?pb ?good = Inr (replicate 12 0x52)"
    "calcPacketDigest example_digest example_hmac ?pb ?bad = Inr (replicate 12 0x52)"
    by (simp_all add: calcPacketDigest_def example_session_def digestRFC3414_def
        example_digest_def slice_to_def macVarbinds_def Let_def sum_list_replicate)
  have 1: "isAuthentic example_digest example_hmac example_session ?pb
             (example_packet\<lparr>SecurityParameters := Some ?other\<rparr>) = Inr False"
    using isAuthentic_user_then_digest
            [of "example_packet\<lparr>SecurityParameters := Some ?other\<rparr>" ?other example_session
               example_digest example_hmac ?pb] u
    by simp
  have 2: "isAuthentic example_digest example_hmac example_session ?pb
             (example_packet\<lparr>SecurityParameters := Some ?good\<rparr>) = Inr True"
    using isAuthentic_user_then_digest
            [of "example_packet\<lparr>SecurityParameters := Some ?good\<rparr>" ?good example_session
               example_digest example_hmac ?pb "replicate 12 0x52"] u d
    by simp
  have ne: "replicate 12 (0x52 :: byte) \<noteq> 0x53 # replicate 11 0x52"
    by (simp add: eval_nat_numeral)
  have 3: "isAuthentic example_digest example_hmac example_session ?pb
             (example_packet\<lparr>SecurityParameters := Some ?bad\<rparr>) = Inr False"
    using isAuthentic_user_then_digest
            [of "example_packet\<lparr>SecurityParameters := Some ?bad\<rparr>" ?bad example_session
               example_digest example_hmac ?pb "replicate 12 0x52"] u d ne
    by simp
  from u(1) d(1) 1 2 3 show ?thesis by simp
qed

section \<open>The walk engine (walk.go)\<close>

subsection \<open>The session, the transport and the visitor\<close>

text \<open>
  Of the session \<open>GoSNMP\<close> the walk reads \<open>MaxRepetitions\<close> and \<open>AppOpts\<close> (a map that may be
  nil). Its methods \<open>Get\<close>, \<open>GetNext\<close> and \<open>GetBulk\<close> are the transport: one parameter
  \<open>exchange\<close> that takes the request and returns the response or the error. The visitor
  \<open>walkFn\<close> is a Go closure. Both may change what lies outside the walk (the agent, the
  session's counters, the variables the closure captured), so both take and return a state
  \<open>'w\<close> of that outside world.
\<close>

record GoSNMP =
  MaxRepetitions :: "32 word"
  AppOpts :: "(string \<rightharpoonup> pdu_value) option"

datatype request =
  GetBulk "string list" "8 word" "32 word"
  | GetNext "string list"
  | Get "string list"

type_synonym 'w transport = "'w \<Rightarrow> request \<Rightarrow> (error + SnmpPacket) \<times> 'w"
type_synonym 'w WalkFunc = "'w \<Rightarrow> SnmpPDU \<Rightarrow> error option \<times> 'w"

text \<open>\<open>strings.HasPrefix\<close>.\<close>

definition HasPrefix :: "string \<Rightarrow> string \<Rightarrow> bool" where
  "HasPrefix s pre \<longleftrightarrow> take (length pre) s = pre"

text \<open>The flag \<open>checkIncreasing\<close>, computed once before the loop (lines 35 to 43).\<close>

definition checkIncreasing :: "GoSNMP \<Rightarrow> PDUType \<Rightarrow> bool" where
  "checkIncreasing x getRequestType =
     (case AppOpts x of
        None \<Rightarrow> True
      | Some opts \<Rightarrow>
          (case opts ''c'' of
             None \<Rightarrow> True
           | Some _ \<Rightarrow> \<not> (getRequestType = GetBulkRequest \<or> getRequestType = GetNextRequest)))"

text \<open>The error-status codes whose case breaks the loop, in the order of the switch.\<close>

definition terminating_errors :: "SNMPError list" where
  "terminating_errors =
     [TooBig, NoSuchName, BadValue, ReadOnly, GenErr, NoAccess, WrongType, WrongLength,
      WrongEncoding, WrongValue, NoCreation, InconsistentValue, ResourceUnavailable,
      CommitFailed, UndoFailed, AuthorizationError, NotWritable, InconsistentName]"

text \<open>The switch on \<open>getRequestType\<close> that sends the request of a round.\<close>

definition sendRequest ::
  "'w transport \<Rightarrow> PDUType \<Rightarrow> string \<Rightarrow> 32 word \<Rightarrow> 'w \<Rightarrow> (error + SnmpPacket) \<times> 'w" where
  "sendRequest exchange getRequestType oid maxReps w =
     (if getRequestType = GetBulkRequest then exchange w (GetBulk [oid] 0 maxReps)
      else if getRequestType = GetNextRequest then exchange w (GetNext [oid])
      else if getRequestType = GetRequest then exchange w (Get [oid])
      else (Inl (ErrUnsupportedRequestType getRequestType), w))"

subsection \<open>The two loops\<close>

text \<open>
  How the loop over the variables of one response ends: \<open>break RequestLoop\<close>,
  \<open>continue RequestLoop\<close> after the switch to a Get, \<open>return err\<close>, or the end of the list.
\<close>

datatype loop_exit = Break | ContinueAsGet | ReturnErr error | Completed

fun visitVariables ::
  "'w WalkFunc \<Rightarrow> string \<Rightarrow> bool \<Rightarrow> string \<Rightarrow> nat \<Rightarrow> nat \<Rightarrow> SnmpPDU list \<Rightarrow> 'w
     \<Rightarrow> loop_exit \<times> 'w" where
  "visitVariables walkFn rootOid checkInc oid requests i [] w = (Completed, w)"
| "visitVariables walkFn rootOid checkInc oid requests i (pdu # rest) w =
     (if Type pdu = EndOfMibView \<or> Type pdu = NoSuchObject \<or> Type pdu = NoSuchInstance
      then (Break, w)
      else if \<not> HasPrefix (Name pdu) (rootOid @ ''.'')
      then (if requests = 1 \<and> i = 0 then (ContinueAsGet, w)
            else if Name pdu = rootOid \<and> Type pdu \<noteq> NoSuchInstance
            then (case walkFn w pdu of
                    (Some err, w') \<Rightarrow> (ReturnErr err, w')
                  | (None, w') \<Rightarrow> (Break, w'))
            else (Break, w))
      else if checkInc \<and> Name pdu = oid
      then (ReturnErr (ErrOidNotIncreasing (Name pdu)), w)
      else (case walkFn w pdu of
              (Some err, w') \<Rightarrow> (ReturnErr err, w')
            | (None, w') \<Rightarrow>
                visitVariables walkFn rootOid checkInc oid requests (i + 1) rest w'))"

text \<open>
  \<open>RequestLoop\<close>. It runs as long as the agent keeps answering with new variables, so it is
  a partial function: \<open>None\<close> is a walk that never returns, \<open>Some (err, w)\<close> the returned
  error (\<open>None\<close> for nil) and the world afterwards. The argument \<open>requests\<close> is the counter
  before its increment at the head of the loop.
\<close>

partial_function (option) requestLoop ::
  "'w transport \<Rightarrow> 'w WalkFunc \<Rightarrow> string \<Rightarrow> bool \<Rightarrow> 32 word \<Rightarrow> PDUType \<Rightarrow> string \<Rightarrow> nat \<Rightarrow> 'w
     \<Rightarrow> (error option \<times> 'w) option" where
  "requestLoop exchange walkFn rootOid checkInc maxReps getRequestType oid requests w =
     (case sendRequest exchange getRequestType oid maxReps w of
        (Inl err, w1) \<Rightarrow> Some (Some err, w1)
      | (Inr response, w1) \<Rightarrow>
          if length (Variables response) = 0 then Some (None, w1)
          else if Error response \<in> set terminating_errors then Some (None, w1)
          else (case visitVariables walkFn rootOid checkInc oid (requests + 1) 0
                       (Variables response) w1 of
                  (Break, w2) \<Rightarrow> Some (None, w2)
                | (ReturnErr err, w2) \<Rightarrow> Some (Some err, w2)
                | (ContinueAsGet, w2) \<Rightarrow>
                    requestLoop exchange walkFn rootOid checkInc maxReps GetRequest oid
                      (requests + 1) w2
                | (Completed, w2) \<Rightarrow>
                    requestLoop exchange walkFn rootOid checkInc maxReps getRequestType
                      (Name (last (Variables response))) (requests + 1) w2))"

declare requestLoop.simps [code]

text \<open>
  The root as \<open>walk\<close> normalizes it, and \<open>walk\<close> itself. \<open>defaultMaxRepetitions\<close> is a constant
  of the package that the two files do not declare; it is a parameter.
\<close>

definition normalizeRoot :: "string \<Rightarrow> string" where
  "normalizeRoot rootOid =
     (let r = (if rootOid = [] \<or> rootOid = ''.'' then ''.1.3.6.1'' else rootOid)
      in if \<not> HasPrefix r ''.'' then ''.'' @ r else r)"

definition walk ::
  "'w transport \<Rightarrow> 32 word \<Rightarrow> GoSNMP \<Rightarrow> PDUType \<Rightarrow> string \<Rightarrow> 'w WalkFunc \<Rightarrow> 'w
     \<Rightarrow> (error option \<times> 'w) option" where
  "walk exchange defaultMaxRepetitions x getRequestType rootOid walkFn w =
     (let root = normalizeRoot rootOid;
          maxReps = (if MaxRepetitions x = 0 then defaultMaxRepetitions else MaxRepetitions x)
      in requestLoop exchange walkFn root (checkIncreasing x getRequestType) maxReps
           getRequestType root 0 w)"

text \<open>
  \<open>walkAll\<close>: the visitor is the closure that appends to \<open>results\<close> and never fails. The
  world of this walk is the world of the transport together with \<open>results\<close>.
\<close>

definition withResults :: "'s transport \<Rightarrow> ('s \<times> SnmpPDU list) transport" where
  "withResults exchange =
     (\<lambda>(s, results) req. case exchange s req of (r, s') \<Rightarrow> (r, (s', results)))"

definition appendResult :: "('s \<times> SnmpPDU list) WalkFunc" where
  "appendResult = (\<lambda>(s, results) dataUnit. (None, (s, results @ [dataUnit])))"

definition walkAll ::
  "'s transport \<Rightarrow> 32 word \<Rightarrow> GoSNMP \<Rightarrow> PDUType \<Rightarrow> string \<Rightarrow> 's
     \<Rightarrow> (SnmpPDU list \<times> error option \<times> 's) option" where
  "walkAll exchange defaultMaxRepetitions x getRequestType rootOid s =
     (case walk (withResults exchange) defaultMaxRepetitions x getRequestType rootOid
             appendResult (s, []) of
        None \<Rightarrow> None
      | Some (err, (s', results)) \<Rightarrow> Some (results, err, s'))"

subsection \<open>Reaching a variable of a response\<close>

text \<open>The three exception markers that end a walk.\<close>

definition terminalType :: "Asn1BER \<Rightarrow> bool" where
  "terminalType t \<longleftrightarrow> t = EndOfMibView \<or> t = NoSuchObject \<or> t = NoSuchInstance"

text \<open>
  A variable that the loop hands to the visitor and steps over: no exception marker, below
  the root, and not stopped by the increasing check.
\<close>

definition deliverable :: "string \<Rightarrow> bool \<Rightarrow> string \<Rightarrow> SnmpPDU \<Rightarrow> bool" where
  "deliverable rootOid checkInc oid pdu \<longleftrightarrow>
     \<not> terminalType (Type pdu) \<and> HasPrefix (Name pdu) (rootOid @ ''.'')
     \<and> \<not> (checkInc \<and> Name pdu = oid)"

text \<open>The world after the visitor has accepted each variable of a list; \<open>None\<close> if it refuses one.\<close>

fun deliverAll :: "'w WalkFunc \<Rightarrow> SnmpPDU list \<Rightarrow> 'w \<Rightarrow> 'w option" where
  "deliverAll walkFn [] w = Some w"
| "deliverAll walkFn (pdu # rest) w =
     (case walkFn w pdu of
        (None, w') \<Rightarrow> deliverAll walkFn rest w'
      | (Some err, w') \<Rightarrow> None)"

text \<open>
  The round that starts in the world \<open>w\<close> with the request type \<open>t\<close> at \<open>oid\<close> reaches the
  variable behind the variables \<open>pre\<close> of its response: the exchange returns the response
  (world \<open>w1\<close>), its error-status does not end the walk, and every variable of \<open>pre\<close> is
  delivered (world \<open>w2\<close>).
\<close>

definition roundReaches ::
  "'w transport \<Rightarrow> 'w WalkFunc \<Rightarrow> string \<Rightarrow> bool \<Rightarrow> 32 word \<Rightarrow> PDUType \<Rightarrow> string \<Rightarrow> 'w
     \<Rightarrow> SnmpPacket \<Rightarrow> SnmpPDU list \<Rightarrow> 'w \<Rightarrow> 'w \<Rightarrow> bool" where
  "roundReaches exchange walkFn rootOid checkInc maxReps t oid w response pre w1 w2 \<longleftrightarrow>
     sendRequest exchange t oid maxReps w = (Inr response, w1)
     \<and> Error response \<notin> set terminating_errors
     \<and> list_all (deliverable rootOid checkInc oid) pre
     \<and> deliverAll walkFn pre w1 = Some w2"

lemma visitVariables_delivered:
  "list_all (deliverable rootOid checkInc oid) pre \<Longrightarrow> deliverAll walkFn pre w = Some w' \<Longrightarrow>
   visitVariables walkFn rootOid checkInc oid requests i (pre @ rest) w
     = visitVariables walkFn rootOid checkInc oid requests (i + length pre) rest w'"
proof (induction pre arbitrary: i w)
  case Nil
  then show ?case by simp
next
  case (Cons p pre)
  from Cons.prems(2) obtain w1 where w1: "walkFn w p = (None, w1)"
    and d: "deliverAll walkFn pre w1 = Some w'"
    by (auto split: prod.splits option.splits)
  from Cons.prems(1) have p: "deliverable rootOid checkInc oid p"
    and pre: "list_all (deliverable rootOid checkInc oid) pre" by simp_all
  from Cons.IH [OF pre d, of "i + 1"] p w1 show ?case
    by (auto simp: deliverable_def terminalType_def)
qed


text \<open>One round of the loop, when the walk reaches a variable of the response.\<close>

lemma requestLoop_round:
  assumes "roundReaches exchange walkFn rootOid checkInc maxReps t oid w response pre w1 w2"
    and "Variables response = pre @ pdu # rest"
  shows "requestLoop exchange walkFn rootOid checkInc maxReps t oid requests w =
     (case visitVariables walkFn rootOid checkInc oid (requests + 1) (length pre) (pdu # rest) w2 of
        (Break, w3) \<Rightarrow> Some (None, w3)
      | (ReturnErr err, w3) \<Rightarrow> Some (Some err, w3)
      | (ContinueAsGet, w3) \<Rightarrow>
          requestLoop exchange walkFn rootOid checkInc maxReps GetRequest oid (requests + 1) w3
      | (Completed, w3) \<Rightarrow>
          requestLoop exchange walkFn rootOid checkInc maxReps t
            (Name (last (Variables response))) (requests + 1) w3)"
proof -
  from assms(1) have s: "sendRequest exchange t oid maxReps w = (Inr response, w1)"
    and e: "Error response \<notin> set terminating_errors"
    and a: "list_all (deliverable rootOid checkInc oid) pre"
    and d: "deliverAll walkFn pre w1 = Some w2"
    by (simp_all add: roundReaches_def)
  have v: "visitVariables walkFn rootOid checkInc oid (requests + 1) 0 (Variables response) w1
         = visitVariables walkFn rootOid checkInc oid (requests + 1) (length pre) (pdu # rest) w2"
    using visitVariables_delivered
            [OF a d, where requests = "requests + 1" and i = 0 and rest = "pdu # rest"] assms(2)
    by simp
  then have v': "visitVariables walkFn rootOid checkInc oid (Suc requests) 0 (pre @ pdu # rest) w1
         = visitVariables walkFn rootOid checkInc oid (Suc requests) (length pre) (pdu # rest) w2"
    using assms(2) by simp
  show ?thesis
    by (subst requestLoop.simps) (simp add: s e v' assms(2) del: visitVariables.simps)
qed

lemma terminating_errors_range:
  "(e \<in> set terminating_errors) = (TooBig \<le> e \<and> e \<le> InconsistentName)"
proof -
  have "(e \<in> set terminating_errors) = (unat e \<in> {1..18})"
    by (auto simp: terminating_errors_def word_unat_eq_iff) arith
  also have "\<dots> = (TooBig \<le> e \<and> e \<le> InconsistentName)"
    by (auto simp: word_le_nat_alt)
  finally show ?thesis .
qed









subsection \<open>The walk: the claims\<close>

text \<open>Examples for the instances: a session, with and without the option \<open>c\<close>.\<close>

definition example_snmp :: GoSNMP where
  "example_snmp = \<lparr>MaxRepetitions = 0, AppOpts = None\<rparr>"


definition sysDescr :: SnmpPDU where
  "sysDescr = \<lparr>Name = ''.1.3.6.1.2.1.1.1.0'', Type = OctetString, Value = OctetsValue [0x68, 0x69]\<rparr>"

text \<open>
  A transport for the instances: it answers the \<open>n\<close>-th request with the \<open>n\<close>-th packet of a
  script, whatever the request, and fails when the script is used up. Its world is the
  number of requests it has served.
\<close>

definition scripted :: "SnmpPacket list \<Rightarrow> nat transport" where
  "scripted script n req =
     (if n < length script then Inr (script ! n) else Inl (ErrExternal ''request timeout''),
      n + 1)"

definition response_of :: "SNMPError \<Rightarrow> SnmpPDU list \<Rightarrow> SnmpPacket" where
  "response_of e vs = \<lparr>MsgFlags = 0, SecurityParameters = None, Error = e, Variables = vs\<rparr>"

definition sysName :: SnmpPDU where
  "sysName = \<lparr>Name = ''.1.3.6.1.2.1.1.5.0'', Type = OctetString, Value = OctetsValue [0x67, 0x77]\<rparr>"














text \<open>
  Claim C9. In every round the walk returns nil when the response carries no variables,
  when its error-status is one of the 18 codes from \<open>TooBig\<close> to \<open>InconsistentName\<close>, and when
  the loop over the variables reaches one of type \<open>EndOfMibView\<close>, \<open>NoSuchObject\<close> or
  \<open>NoSuchInstance\<close>. The codes of the switch are exactly the codes 1 to 18.
\<close>

theorem walk_clean_termination:
  "(sendRequest exchange t oid maxReps w = (Inr response, w1) \<and> Variables response = [] \<longrightarrow>
      requestLoop exchange walkFn rootOid checkInc maxReps t oid requests w = Some (None, w1))
   \<and> (sendRequest exchange t oid maxReps w = (Inr response, w1)
        \<and> TooBig \<le> Error response \<and> Error response \<le> InconsistentName \<longrightarrow>
      requestLoop exchange walkFn rootOid checkInc maxReps t oid requests w = Some (None, w1))
   \<and> (roundReaches exchange walkFn rootOid checkInc maxReps t oid w response pre w1 w2
        \<and> Variables response = pre @ pdu # rest
        \<and> (Type pdu = EndOfMibView \<or> Type pdu = NoSuchObject \<or> Type pdu = NoSuchInstance) \<longrightarrow>
      requestLoop exchange walkFn rootOid checkInc maxReps t oid requests w = Some (None, w2))
   \<and> length terminating_errors = 18
   \<and> (e \<in> set terminating_errors) = (TooBig \<le> e \<and> e \<le> InconsistentName)"
proof (intro conjI impI)
  assume "sendRequest exchange t oid maxReps w = (Inr response, w1) \<and> Variables response = []"
  then show "requestLoop exchange walkFn rootOid checkInc maxReps t oid requests w = Some (None, w1)"
    by (subst requestLoop.simps) simp
next
  assume "sendRequest exchange t oid maxReps w = (Inr response, w1)
        \<and> TooBig \<le> Error response \<and> Error response \<le> InconsistentName"
  then have "sendRequest exchange t oid maxReps w = (Inr response, w1)"
    and "Error response \<in> set terminating_errors"
    by (simp_all add: terminating_errors_range)
  then show "requestLoop exchange walkFn rootOid checkInc maxReps t oid requests w = Some (None, w1)"
    by (subst requestLoop.simps) simp
next
  assume a: "roundReaches exchange walkFn rootOid checkInc maxReps t oid w response pre w1 w2
        \<and> Variables response = pre @ pdu # rest
        \<and> (Type pdu = EndOfMibView \<or> Type pdu = NoSuchObject \<or> Type pdu = NoSuchInstance)"
  then have r: "roundReaches exchange walkFn rootOid checkInc maxReps t oid w response pre w1 w2"
    and v: "Variables response = pre @ pdu # rest" by simp_all
  from a have "visitVariables walkFn rootOid checkInc oid (requests + 1) (length pre) (pdu # rest) w2
                 = (Break, w2)" by auto
  with requestLoop_round [OF r v, of requests]
  show "requestLoop exchange walkFn rootOid checkInc maxReps t oid requests w = Some (None, w2)"
    by (simp del: visitVariables.simps)
next
  show "length terminating_errors = 18" by (simp add: terminating_errors_def)
next
  show "(e \<in> set terminating_errors) = (TooBig \<le> e \<and> e \<le> InconsistentName)"
    by (rule terminating_errors_range)
qed

text \<open>
  The instances: an empty response; a response with the error-status \<open>GenErr\<close>; a GetBulk
  response whose second variable is the end of the MIB view.
\<close>

theorem walk_clean_termination_witness:
  "sendRequest (withResults (scripted [response_of NoError []])) GetBulkRequest
       ''.1.3.6.1.2.1.1'' 50 (0, [])
     = (Inr (response_of NoError []), (1, []))
   \<and> requestLoop (withResults (scripted [response_of NoError []])) appendResult
        ''.1.3.6.1.2.1.1'' True 50 GetBulkRequest ''.1.3.6.1.2.1.1'' 0 (0, [])
     = Some (None, (1, []))
   \<and> TooBig \<le> Error (response_of GenErr [sysDescr])
   \<and> Error (response_of GenErr [sysDescr]) \<le> InconsistentName
   \<and> requestLoop (withResults (scripted [response_of GenErr [sysDescr]])) appendResult
        ''.1.3.6.1.2.1.1'' True 50 GetBulkRequest ''.1.3.6.1.2.1.1'' 0 (0, [])
     = Some (None, (1, []))
   \<and> roundReaches
        (withResults (scripted [response_of NoError [sysDescr, sysName\<lparr>Type := EndOfMibView\<rparr>]]))
        appendResult ''.1.3.6.1.2.1.1'' True 50 GetBulkRequest ''.1.3.6.1.2.1.1'' (0, [])
        (response_of NoError [sysDescr, sysName\<lparr>Type := EndOfMibView\<rparr>]) [sysDescr]
        (1, []) (1, [sysDescr])
   \<and> requestLoop
        (withResults (scripted [response_of NoError [sysDescr, sysName\<lparr>Type := EndOfMibView\<rparr>]]))
        appendResult ''.1.3.6.1.2.1.1'' True 50 GetBulkRequest ''.1.3.6.1.2.1.1'' 0 (0, [])
     = Some (None, (1, [sysDescr]))
   \<and> walkAll (scripted [response_of NoError [sysDescr, sysName\<lparr>Type := EndOfMibView\<rparr>]])
        50 example_snmp GetBulkRequest ''.1.3.6.1.2.1.1'' 0
     = Some ([sysDescr], None, 1)"
proof -
  let ?root = "''.1.3.6.1.2.1.1''"
  let ?eom = "sysName\<lparr>Type := EndOfMibView\<rparr>"
  let ?A = "withResults (scripted [response_of NoError []])"
  let ?B = "withResults (scripted [response_of GenErr [sysDescr]])"
  let ?C = "withResults (scripted [response_of NoError [sysDescr, ?eom]])"
  have a: "sendRequest ?A GetBulkRequest ?root 50 (0, []) = (Inr (response_of NoError []), (1, []))"
    "Variables (response_of NoError []) = []"
    by (simp_all add: sendRequest_def withResults_def scripted_def response_of_def)
  have b: "sendRequest ?B GetBulkRequest ?root 50 (0, [])
             = (Inr (response_of GenErr [sysDescr]), (1, []))"
    "TooBig \<le> Error (response_of GenErr [sysDescr])"
    "Error (response_of GenErr [sysDescr]) \<le> InconsistentName"
    by (simp_all add: sendRequest_def withResults_def scripted_def response_of_def)
  have c: "roundReaches ?C appendResult ?root True 50 GetBulkRequest ?root (0, [])
             (response_of NoError [sysDescr, ?eom]) [sysDescr] (1, []) (1, [sysDescr])"
    by (simp add: roundReaches_def sendRequest_def withResults_def scripted_def response_of_def
        terminating_errors_def deliverable_def terminalType_def HasPrefix_def sysDescr_def
        appendResult_def)
  have c': "Variables (response_of NoError [sysDescr, ?eom]) = [sysDescr] @ ?eom # []"
    "Type ?eom = EndOfMibView"
    by (simp_all add: response_of_def)
  have 1: "requestLoop ?A appendResult ?root True 50 GetBulkRequest ?root 0 (0, []) = Some (None, (1, []))"
    using walk_clean_termination
            [where exchange = ?A and t = GetBulkRequest and oid = ?root and maxReps = 50
               and w = "(0, [])" and response = "response_of NoError []" and ?w1.0 = "(1, [])"
               and walkFn = appendResult and rootOid = ?root and checkInc = True
               and requests = 0] a
    by blast
  have 2: "requestLoop ?B appendResult ?root True 50 GetBulkRequest ?root 0 (0, []) = Some (None, (1, []))"
    using walk_clean_termination
            [where exchange = ?B and t = GetBulkRequest and oid = ?root and maxReps = 50
               and w = "(0, [])" and response = "response_of GenErr [sysDescr]"
               and ?w1.0 = "(1, [])"
               and walkFn = appendResult and rootOid = ?root and checkInc = True
               and requests = 0] b
    by blast
  have 3: "requestLoop ?C appendResult ?root True 50 GetBulkRequest ?root 0 (0, [])
             = Some (None, (1, [sysDescr]))"
    using walk_clean_termination
            [where exchange = ?C and t = GetBulkRequest and oid = ?root and maxReps = 50
               and w = "(0, [])" and response = "response_of NoError [sysDescr, ?eom]"
               and ?w1.0 = "(1, [])" and ?w2.0 = "(1, [sysDescr])" and pre = "[sysDescr]"
               and pdu = ?eom and rest = "[]"
               and walkFn = appendResult and rootOid = ?root and checkInc = True
               and requests = 0] c c'
    by blast
  have 4: "walkAll (scripted [response_of NoError [sysDescr, ?eom]])
             50 example_snmp GetBulkRequest ?root 0 = Some ([sysDescr], None, 1)"
    by code_simp
  from a(1) b(2,3) c 1 2 3 4 show ?thesis by (intro conjI)
qed

end
